theory Spec2Isabelle
  imports Complex_Main "HOL-Library.Sublist" "HOL-Library.Multiset" "HOL-Library.Log_Nat"
begin

section \<open>Exceptions and loops\<close>

text \<open>
  The script \<^verbatim>\<open>label_image.py\<close> catches no exception: whatever a call raises ends the
  process. An exception is a value of type \<open>error\<close>, and a computation that may raise
  returns \<open>error + 'a\<close> with \<open>Inl\<close> for the exception.
\<close>

datatype error =
    IndexError
  | ValueError
  | ZeroDivisionError
  | NotFoundError
  | InvalidArgumentError
  | UsageError
  | NotModelled

text \<open>A \<^verbatim>\<open>for x in xs:\<close> loop whose body may raise; the first exception leaves the loop.\<close>

fun for_each :: "('s \<Rightarrow> 'x \<Rightarrow> error + 's) \<Rightarrow> 's \<Rightarrow> 'x list \<Rightarrow> error + 's" where
  "for_each body s [] = Inr s"
| "for_each body s (x # xs) =
     (case body s x of Inl e \<Rightarrow> Inl e | Inr s' \<Rightarrow> for_each body s' xs)"

section \<open>Python strings\<close>

definition endswith :: "string \<Rightarrow> string \<Rightarrow> bool" where
  "endswith s suf = suffix suf s"

text \<open>
  A text is a list of characters with codes below 256. \<^verbatim>\<open>str.isspace\<close> holds of these:
  tab, line feed, vertical tab, form feed, carriage return, the four separators \<open>0x1c\<close> to
  \<open>0x1f\<close>, the space, the next-line control \<open>0x85\<close> and the no-break space \<open>0xa0\<close>.
\<close>

definition isspace :: "char \<Rightarrow> bool" where
  "isspace c =
     (let n = (of_char c :: nat)
      in (9 \<le> n \<and> n \<le> 13) \<or> (28 \<le> n \<and> n \<le> 32) \<or> n = 133 \<or> n = 160)"

definition rstrip :: "string \<Rightarrow> string" where
  "rstrip s = rev (dropWhile isspace (rev s))"

definition lstrip :: "string \<Rightarrow> string" where
  "lstrip s = dropWhile isspace s"

definition strip :: "string \<Rightarrow> string" where
  "strip s = rstrip (lstrip s)"

text \<open>
  A text cut after every line feed, each piece keeping its line feed; what follows the last
  line feed is the last piece, unless it is empty.
\<close>

fun cut_lines :: "string \<Rightarrow> string list" where
  "cut_lines [] = []"
| "cut_lines (c # cs) =
     (if c = CHR 0x0A then [c] # cut_lines cs
      else (case cut_lines cs of [] \<Rightarrow> [[c]] | l # ls \<Rightarrow> (c # l) # ls))"

text \<open>
  \<^verbatim>\<open>GFile.readlines()\<close> calls \<^verbatim>\<open>readline\<close> until it returns the empty text. The reader
  behind \<^verbatim>\<open>readline\<close> copies characters up to and including the next line feed and never
  copies a carriage return, wherever it stands. So the lines returned are those of the text
  without its carriage returns, and a rest that holds nothing but carriage returns gives no
  line.
\<close>

definition readlines :: "string \<Rightarrow> string list" where
  "readlines content = cut_lines (filter (\<lambda>c. c \<noteq> CHR 0x0D) content)"

text \<open>\<^verbatim>\<open>s.split(sep)\<close> for a separator of one character.\<close>

fun split_on :: "char \<Rightarrow> string \<Rightarrow> string list" where
  "split_on sep [] = [[]]"
| "split_on sep (c # cs) =
     (if c = sep then [] # split_on sep cs
      else (case split_on sep cs of [] \<Rightarrow> [[c]] | w # ws \<Rightarrow> (c # w) # ws))"

text \<open>\<^verbatim>\<open>s.split(sep)[0]\<close> for a non-empty separator: the text before its first occurrence.\<close>

fun before_first :: "string \<Rightarrow> string \<Rightarrow> string" where
  "before_first sep [] = []"
| "before_first sep (c # cs) = (if prefix sep (c # cs) then [] else c # before_first sep cs)"

definition is_digit :: "char \<Rightarrow> bool" where
  "is_digit c = (48 \<le> (of_char c :: nat) \<and> (of_char c :: nat) \<le> 57)"

definition digit_char :: "nat \<Rightarrow> char" where
  "digit_char d = char_of (48 + d)"

text \<open>\<^verbatim>\<open>str(i)\<close> for a non-negative integer.\<close>

fun str_nat :: "nat \<Rightarrow> string" where
  "str_nat n = (if n < 10 then [digit_char n] else str_nat (n div 10) @ [digit_char (n mod 10)])"

text \<open>
  The digits of a decimal literal: at least one digit, and single underscores allowed
  between two digits (never in front, at the end or doubled).
\<close>

fun digit_groups :: "string \<Rightarrow> bool" where
  "digit_groups [] = False"
| "digit_groups [c] = is_digit c"
| "digit_groups (c # d # ds) =
     (is_digit c \<and> (if d = CHR ''_'' then digit_groups ds else digit_groups (d # ds)))"

definition digits_value :: "string \<Rightarrow> error + int" where
  "digits_value ds =
     (if digit_groups ds
      then Inr (int (foldl (\<lambda>a d. 10 * a + ((of_char d :: nat) - 48)) 0
                       (filter (\<lambda>c. c \<noteq> CHR ''_'') ds)))
      else Inl ValueError)"

text \<open>
  \<^verbatim>\<open>int(s)\<close>: surrounding whitespace is ignored, one sign is allowed, the rest must be
  decimal digits, which may be grouped by single underscores; anything else raises
  \<^verbatim>\<open>ValueError\<close>.
\<close>

definition py_int :: "string \<Rightarrow> error + int" where
  "py_int s =
     (case strip s of
        [] \<Rightarrow> Inl ValueError
      | c # ds \<Rightarrow>
          if c = CHR ''-'' then (case digits_value ds of Inl e \<Rightarrow> Inl e | Inr n \<Rightarrow> Inr (- n))
          else if c = CHR ''+'' then digits_value ds
          else digits_value (c # ds))"

text \<open>\<^verbatim>\<open>xs[i]\<close> for a non-negative index.\<close>

definition index :: "'a list \<Rightarrow> nat \<Rightarrow> error + 'a" where
  "index xs i = (if i < length xs then Inr (xs ! i) else Inl IndexError)"

text \<open>\<^verbatim>\<open>os.path.join(a, b)\<close> on a POSIX system.\<close>

definition path_join :: "string \<Rightarrow> string \<Rightarrow> string" where
  "path_join a b =
     (if b \<noteq> [] \<and> hd b = CHR ''/'' then b
      else if a = [] \<or> last a = CHR ''/'' then a @ b
      else a @ ''/'' @ b)"

section \<open>The file system\<close>

text \<open>
  \<^verbatim>\<open>gfile.Exists\<close> and \<^verbatim>\<open>gfile.Glob\<close> belong to the TensorFlow library, which is not part of
  the script. The file system is a map from a path, written without trailing slash, to what
  is there: a file, or a directory with the names of its entries in listing order.
\<close>

datatype node = File | Dir "string list"

type_synonym filesystem = "string \<Rightarrow> node option"

definition strip_slashes :: "string \<Rightarrow> string" where
  "strip_slashes p = rev (dropWhile (\<lambda>c. c = CHR ''/'') (rev p))"

definition gfile_Exists :: "filesystem \<Rightarrow> string \<Rightarrow> bool" where
  "gfile_Exists fs p = (fs (strip_slashes p) \<noteq> None)"

text \<open>The part of a pattern up to and including its last slash, and the part after it.\<close>

definition pattern_dir :: "string \<Rightarrow> string" where
  "pattern_dir p = rev (dropWhile (\<lambda>c. c \<noteq> CHR ''/'') (rev p))"

definition pattern_base :: "string \<Rightarrow> string" where
  "pattern_base p = rev (takeWhile (\<lambda>c. c \<noteq> CHR ''/'') (rev p))"

text \<open>
  The script only builds patterns \<^verbatim>\<open><directory>/*.<extension>\<close>: a leading star stands
  for any text, everything else for itself. Wildcards in the directory part are not
  interpreted.
\<close>

definition glob_match :: "string \<Rightarrow> string \<Rightarrow> bool" where
  "glob_match pat name =
     (case pat of
        [] \<Rightarrow> name = []
      | c # suf \<Rightarrow> if c = CHR ''*'' then suffix suf name else name = c # suf)"

text \<open>
  Modelled from the spec: \<^verbatim>\<open>gfile.Glob\<close> is not in the script. The spec has execution
  continue "with an empty file list" when the directory does not exist, so a pattern
  under a path that is no directory matches nothing and raises nothing; under a directory it
  gives the paths of the matching entries.
\<close>

definition gfile_Glob :: "filesystem \<Rightarrow> string \<Rightarrow> string list" where
  "gfile_Glob fs p =
     (case fs (strip_slashes (pattern_dir p)) of
        Some (Dir names) \<Rightarrow> map (\<lambda>n. pattern_dir p @ n) (filter (glob_match (pattern_base p)) names)
      | _ \<Rightarrow> [])"

section \<open>Tensors and the library operations\<close>

text \<open>A tensor is its shape and its elements in row-major order.\<close>

record 'a tensor =
  shape :: "nat list"
  elems :: "'a list"

text \<open>
  What the script asks of TensorFlow is a parameter of the model: reading a file, the four
  decoders (PNG and JPEG are called with a channel count, GIF and BMP without), bilinear
  resizing, and loading a graph. \<open>read_text\<close> gives the text of a file opened with
  \<^verbatim>\<open>tf.gfile.GFile\<close>. \<open>load_graph\<close> takes the model file and the names of the input
  and output operations; it raises, or gives the function that one \<^verbatim>\<open>sess.run\<close> from the
  input operation to the output operation computes. A run on one image yields an array of
  shape \<open>(1, m)\<close>; the function gives its only row. \<open>add_scores\<close> is the addition of two
  scores inside \<^verbatim>\<open>np.sum\<close>.
\<close>

record 'a env =
  fs :: filesystem
  read_text :: "string \<Rightarrow> error + string"
  read_file :: "string \<Rightarrow> error + string"
  decode_png :: "string \<Rightarrow> nat \<Rightarrow> error + nat tensor"
  decode_gif :: "string \<Rightarrow> error + nat tensor"
  decode_bmp :: "string \<Rightarrow> error + nat tensor"
  decode_jpeg :: "string \<Rightarrow> nat \<Rightarrow> error + nat tensor"
  resize_bilinear :: "'a tensor \<Rightarrow> int \<Rightarrow> int \<Rightarrow> error + 'a tensor"
  load_graph :: "string \<Rightarrow> string \<Rightarrow> string \<Rightarrow> error + ('a tensor \<Rightarrow> error + 'a list)"
  add_scores :: "'a \<Rightarrow> 'a \<Rightarrow> 'a"

definition tf_squeeze :: "'b tensor \<Rightarrow> 'b tensor" where
  "tf_squeeze t = t\<lparr>shape := filter (\<lambda>d. d \<noteq> 1) (shape t)\<rparr>"

definition tf_cast_float :: "nat tensor \<Rightarrow> ('a::semiring_1) tensor" where
  "tf_cast_float t = \<lparr>shape = shape t, elems = map of_nat (elems t)\<rparr>"

definition tf_expand_dims0 :: "'b tensor \<Rightarrow> 'b tensor" where
  "tf_expand_dims0 t = t\<lparr>shape := 1 # shape t\<rparr>"

datatype decoder = PNG | GIF | BMP | JPEG

text \<open>The \<^verbatim>\<open>if\<close>/\<^verbatim>\<open>elif\<close> chain on the file name, lines 48 to 58.\<close>

definition select_decoder :: "string \<Rightarrow> decoder" where
  "select_decoder file_name =
     (if endswith file_name ''.png'' then PNG
      else if endswith file_name ''.gif'' then GIF
      else if endswith file_name ''.bmp'' then BMP
      else JPEG)"

definition image_reader :: "'a env \<Rightarrow> decoder \<Rightarrow> string \<Rightarrow> error + nat tensor" where
  "image_reader E d contents =
     (case d of
        PNG \<Rightarrow> decode_png E contents 3
      | GIF \<Rightarrow> (case decode_gif E contents of Inl e \<Rightarrow> Inl e | Inr t \<Rightarrow> Inr (tf_squeeze t))
      | BMP \<Rightarrow> decode_bmp E contents
      | JPEG \<Rightarrow> decode_jpeg E contents 3)"

text \<open>
  \<^verbatim>\<open>tf.divide(tf.subtract(resized, [input_mean]), [input_std])\<close>. The elements are taken in
  a field. For \<open>input_std = 0\<close> TensorFlow returns infinities and NaNs, which a field does
  not have: what is stated about the values of the tensor is stated for \<open>input_std \<noteq> 0\<close>.
  (Started from the command line the script never has \<open>input_std = 0\<close>:
  \<^verbatim>\<open>--input_std 0\<close> leaves 255.)
\<close>

definition normalized :: "int \<Rightarrow> int \<Rightarrow> ('a::field) tensor \<Rightarrow> 'a tensor" where
  "normalized input_mean input_std t =
     t\<lparr>elems := map (\<lambda>x. (x - of_int input_mean) / of_int input_std) (elems t)\<rparr>"

definition read_tensor_from_image_file ::
  "('a::field) env \<Rightarrow> string \<Rightarrow> int \<Rightarrow> int \<Rightarrow> int \<Rightarrow> int \<Rightarrow> error + 'a tensor" where
  "read_tensor_from_image_file E file_name input_height input_width input_mean input_std =
     (case read_file E file_name of
        Inl e \<Rightarrow> Inl e
      | Inr file_reader \<Rightarrow>
          (case image_reader E (select_decoder file_name) file_reader of
             Inl e \<Rightarrow> Inl e
           | Inr decoded \<Rightarrow>
               (case resize_bilinear E (tf_expand_dims0 (tf_cast_float decoded))
                       input_height input_width of
                  Inl e \<Rightarrow> Inl e
                | Inr resized \<Rightarrow> Inr (normalized input_mean input_std resized))))"

section \<open>The label file\<close>

definition load_labels :: "'a env \<Rightarrow> string \<Rightarrow> error + string list" where
  "load_labels E label_file =
     (case read_text E label_file of
        Inl e \<Rightarrow> Inl e
      | Inr content \<Rightarrow> Inr (map rstrip (readlines content)))"

section \<open>numpy\<close>

text \<open>
  \<^verbatim>\<open>a.argsort()\<close>: the indices of \<open>a\<close> in ascending order of their values. numpy does
  not say in which order it leaves equal values; here an index stays before a later one with
  the same value.
\<close>

definition argsort :: "('a::linorder) list \<Rightarrow> nat list" where
  "argsort a = sort_key (\<lambda>i. a ! i) [0..<length a]"

text \<open>\<^verbatim>\<open>xs[-k:]\<close>: the last \<open>k\<close> elements, all of them when there are fewer, and for \<open>k = 0\<close>.\<close>

definition last_k :: "nat \<Rightarrow> 'b list \<Rightarrow> 'b list" where
  "last_k k xs = (if k = 0 then xs else drop (length xs - k) xs)"

text \<open>\<^verbatim>\<open>results.argsort()[-k:][::-1]\<close>\<close>

definition top_indices :: "nat \<Rightarrow> ('a::linorder) list \<Rightarrow> nat list" where
  "top_indices k results = rev (last_k k (argsort results))"

text \<open>
  \<^verbatim>\<open>np.append(final_results, results, axis=0)\<close>, where \<open>final_results\<close> was made by
  \<^verbatim>\<open>np.reshape(np.array([]), [-1, 99])\<close> and so has shape \<open>(n, 99)\<close>, and \<open>results\<close> has
  shape \<open>(1, m)\<close> with the row given: the arrays must agree in all but the first dimension.
\<close>

definition np_append :: "'b list list \<Rightarrow> 'b list \<Rightarrow> error + 'b list list" where
  "np_append final_results row =
     (if length row = 99 then Inr (final_results @ [row]) else Inl ValueError)"

text \<open>Two rows added element by element, with the addition \<open>add\<close> of two scores.\<close>

definition vec_add :: "('a \<Rightarrow> 'a \<Rightarrow> 'a) \<Rightarrow> 'a list \<Rightarrow> 'a list \<Rightarrow> 'a list" where
  "vec_add add xs ys = map (\<lambda>(x, y). add x y) (zip xs ys)"

text \<open>
  \<^verbatim>\<open>np.sum(final_results, axis=0)\<close> for an array of shape \<open>(n, 99)\<close>: numpy starts from a
  row of zeros and adds the rows to it one after the other, in the order of the array. The
  addition of two scores is a parameter: numpy adds float64 numbers and rounds each sum.
\<close>

definition np_sum :: "('a \<Rightarrow> 'a \<Rightarrow> 'a) \<Rightarrow> ('a::zero) list list \<Rightarrow> 'a list" where
  "np_sum add final_results = foldl (vec_add add) (replicate 99 0) final_results"

text \<open>
  The addition of float64 numbers. Every float64 number is a rational number, so the scores
  are rationals and only the result of an addition is rounded: to the nearest number with a
  significand of 53 binary digits, and of two equally near ones to the one whose last digit
  is even. The range of the exponent is not modelled: no sum overflows to infinity, and the
  numbers too small for a float64 exponent keep 53 digits. There are no NaNs.

  \<open>pow2 e\<close> is the power of two with exponent \<open>e\<close>, and \<open>binary_exponent x\<close>, for \<open>x\<close>
  other than 0, is the exponent \<open>e\<close> with \<open>pow2 e \<le> |x| < pow2 (e + 1)\<close>: the quotient of a
  numerator of \<open>m\<close> binary digits and a denominator of \<open>n\<close> lies between the powers of
  two with exponents \<open>m - n - 1\<close> and \<open>m - n + 1\<close>.
\<close>

definition pow2 :: "int \<Rightarrow> rat" where
  "pow2 e = (if 0 \<le> e then 2 ^ nat e else 1 / 2 ^ nat (- e))"

definition binary_exponent :: "rat \<Rightarrow> int" where
  "binary_exponent x =
     (case quotient_of \<bar>x\<bar> of (p, q) \<Rightarrow>
        let d = bitlen p - bitlen q in if pow2 d \<le> \<bar>x\<bar> then d else d - 1)"

definition round_half_even :: "rat \<Rightarrow> int" where
  "round_half_even q =
     (let f = \<lfloor>q\<rfloor>; r = q - of_int f
      in if r < 1 / 2 then f else if 1 / 2 < r then f + 1 else if even f then f else f + 1)"

definition float64_round :: "rat \<Rightarrow> rat" where
  "float64_round x =
     (if x = 0 then 0
      else let u = pow2 (binary_exponent x - 52) in of_int (round_half_even (x / u)) * u)"

definition float64_add :: "rat \<Rightarrow> rat \<Rightarrow> rat" where
  "float64_add x y = float64_round (x + y)"

section \<open>Command line and configuration\<close>

text \<open>The command line as typed: for every flag the text given, if any.\<close>

record cmdline =
  cl_image :: "string option"
  cl_vote :: "string option"
  cl_graph :: "string option"
  cl_labels :: "string option"
  cl_input_height :: "string option"
  cl_input_width :: "string option"
  cl_input_mean :: "string option"
  cl_input_std :: "string option"
  cl_input_layer :: "string option"
  cl_output_layer :: "string option"
  cl_top_k_graph :: "string option"
  cl_summaries_dir :: "string option"

record args =
  arg_image :: "string option"
  arg_vote :: "bool option"
  arg_graph :: "string option"
  arg_labels :: "string option"
  arg_input_height :: "int option"
  arg_input_width :: "int option"
  arg_input_mean :: "int option"
  arg_input_std :: "int option"
  arg_input_layer :: "string option"
  arg_output_layer :: "string option"
  arg_top_k_graph :: "bool option"
  arg_summaries_dir :: "string"

text \<open>\<^verbatim>\<open>type=bool\<close> makes argparse call \<^verbatim>\<open>bool\<close> on the text: true unless it is empty.\<close>

definition py_bool :: "string \<Rightarrow> bool" where
  "py_bool s = (s \<noteq> [])"

text \<open>\<^verbatim>\<open>type=int\<close>: argparse calls \<^verbatim>\<open>int\<close> and turns its \<^verbatim>\<open>ValueError\<close> into a usage error.\<close>

definition int_flag :: "string option \<Rightarrow> error + int option" where
  "int_flag v =
     (case v of
        None \<Rightarrow> Inr None
      | Some s \<Rightarrow> (case py_int s of Inl e \<Rightarrow> Inl UsageError | Inr n \<Rightarrow> Inr (Some n)))"

definition default_summaries_dir :: string where
  "default_summaries_dir = ''/mnt/storage/home/tc13007/Manta_Inception/tensorflow/retrain_logs''"

definition parse_args :: "cmdline \<Rightarrow> error + args" where
  "parse_args cl =
     (case int_flag (cl_input_height cl) of
        Inl e \<Rightarrow> Inl e
      | Inr h \<Rightarrow>
     (case int_flag (cl_input_width cl) of
        Inl e \<Rightarrow> Inl e
      | Inr w \<Rightarrow>
     (case int_flag (cl_input_mean cl) of
        Inl e \<Rightarrow> Inl e
      | Inr m \<Rightarrow>
     (case int_flag (cl_input_std cl) of
        Inl e \<Rightarrow> Inl e
      | Inr s \<Rightarrow>
          Inr \<lparr>arg_image = cl_image cl,
               arg_vote = map_option py_bool (cl_vote cl),
               arg_graph = cl_graph cl,
               arg_labels = cl_labels cl,
               arg_input_height = h,
               arg_input_width = w,
               arg_input_mean = m,
               arg_input_std = s,
               arg_input_layer = cl_input_layer cl,
               arg_output_layer = cl_output_layer cl,
               arg_top_k_graph = map_option py_bool (cl_top_k_graph cl),
               arg_summaries_dir =
                 (case cl_summaries_dir cl of None \<Rightarrow> default_summaries_dir | Some d \<Rightarrow> d)\<rparr>))))"

text \<open>Truth values of \<^verbatim>\<open>if args.x:\<close>: \<^verbatim>\<open>None\<close>, the empty text, zero and \<^verbatim>\<open>False\<close> are false.\<close>

definition truthy_str :: "string option \<Rightarrow> bool" where
  "truthy_str v = (case v of None \<Rightarrow> False | Some s \<Rightarrow> s \<noteq> [])"

definition truthy_int :: "int option \<Rightarrow> bool" where
  "truthy_int v = (case v of None \<Rightarrow> False | Some n \<Rightarrow> n \<noteq> 0)"

definition truthy_bool :: "bool option \<Rightarrow> bool" where
  "truthy_bool v = (case v of None \<Rightarrow> False | Some b \<Rightarrow> b)"

record config =
  file_name :: string
  folder_name :: string
  model_file :: string
  label_file :: string
  input_height :: int
  input_width :: int
  input_mean :: int
  input_std :: int
  input_layer :: string
  output_layer :: string

text \<open>Lines 78 to 88.\<close>

definition defaults :: config where
  "defaults =
     \<lparr>file_name = ''tensorflow/examples/label_image/data/grace_hopper.jpg'',
      folder_name = [],
      model_file = ''tensorflow/examples/label_image/data/inception_v3_2016_08_28_frozen.pb'',
      label_file = ''tensorflow/examples/label_image/data/imagenet_slim_labels.txt'',
      input_height = 299,
      input_width = 299,
      input_mean = 0,
      input_std = 255,
      input_layer = ''input'',
      output_layer = ''InceptionV3/Predictions/Reshape_1''\<rparr>"

definition vote_folder :: string where
  "vote_folder = ''/mnt/storage/scratch/tc13007/mantas_test_augmented''"

definition top_k_folder :: string where
  "top_k_folder = ''/mnt/storage/scratch/tc13007/mantas_test''"

text \<open>A statement under \<^verbatim>\<open>if b:\<close> with no \<^verbatim>\<open>else\<close>.\<close>

definition py_if :: "bool \<Rightarrow> ('s \<Rightarrow> 's) \<Rightarrow> 's \<Rightarrow> 's" where
  "py_if b f c = (if b then f c else c)"

text \<open>Lines 109 to 133, one \<^verbatim>\<open>if\<close> after the other.\<close>

definition configure :: "args \<Rightarrow> config" where
  "configure a =
     (let c = defaults;
          c = py_if (truthy_str (arg_graph a)) (\<lambda>c. c\<lparr>model_file := the (arg_graph a)\<rparr>) c;
          c = py_if (truthy_bool (arg_vote a)) (\<lambda>c. c\<lparr>folder_name := vote_folder\<rparr>) c;
          c = py_if (truthy_str (arg_image a))
                (\<lambda>c. if truthy_bool (arg_vote a)
                     then c\<lparr>file_name := folder_name c @ ''/'' @ the (arg_image a)\<rparr>
                     else c\<lparr>file_name := the (arg_image a)\<rparr>) c;
          c = py_if (truthy_str (arg_labels a)) (\<lambda>c. c\<lparr>label_file := the (arg_labels a)\<rparr>) c;
          c = py_if (truthy_int (arg_input_height a))
                (\<lambda>c. c\<lparr>input_height := the (arg_input_height a)\<rparr>) c;
          c = py_if (truthy_int (arg_input_width a))
                (\<lambda>c. c\<lparr>input_width := the (arg_input_width a)\<rparr>) c;
          c = py_if (truthy_int (arg_input_mean a))
                (\<lambda>c. c\<lparr>input_mean := the (arg_input_mean a)\<rparr>) c;
          c = py_if (truthy_int (arg_input_std a))
                (\<lambda>c. c\<lparr>input_std := the (arg_input_std a)\<rparr>) c;
          c = py_if (truthy_str (arg_input_layer a))
                (\<lambda>c. c\<lparr>input_layer := the (arg_input_layer a)\<rparr>) c;
          c = py_if (truthy_str (arg_output_layer a))
                (\<lambda>c. c\<lparr>output_layer := the (arg_output_layer a)\<rparr>) c;
          c = py_if (truthy_bool (arg_top_k_graph a)) (\<lambda>c. c\<lparr>folder_name := top_k_folder\<rparr>) c
      in c)"

datatype mode = TopKMode | VoteMode | SingleMode

text \<open>The \<^verbatim>\<open>if\<close>/\<^verbatim>\<open>elif\<close>/\<^verbatim>\<open>else\<close> of lines 141, 196 and 225.\<close>

definition select_mode :: "args \<Rightarrow> mode" where
  "select_mode a =
     (if truthy_bool (arg_top_k_graph a) then TopKMode
      else if truthy_bool (arg_vote a) then VoteMode
      else SingleMode)"

section \<open>Inference on one file\<close>

text \<open>
  Lines 171 to 178, and again 209 to 217: the file is preprocessed with the configured size
  and normalisation and the graph is run on the tensor.
\<close>

definition classify ::
  "('a::field) env \<Rightarrow> config \<Rightarrow> ('a tensor \<Rightarrow> error + 'a list) \<Rightarrow> string \<Rightarrow> error + 'a list" where
  "classify E c run file =
     (case read_tensor_from_image_file E file
             (input_height c) (input_width c) (input_mean c) (input_std c) of
        Inl e \<Rightarrow> Inl e
      | Inr t \<Rightarrow> run t)"

definition extensions :: "string list" where
  "extensions = [''jpg'', ''jpeg'', ''JPG'', ''JPEG'']"

text \<open>
  \<^verbatim>\<open>for extension in extensions: file_list.extend(gfile.Glob(os.path.join(dir, '*.' + extension)))\<close>
\<close>

definition glob_extensions :: "filesystem \<Rightarrow> string \<Rightarrow> string list \<Rightarrow> string list" where
  "glob_extensions F dir file_list0 =
     foldl (\<lambda>fl extension. fl @ gfile_Glob F (path_join dir (''*.'' @ extension)))
       file_list0 extensions"

definition not_found_message :: "string \<Rightarrow> string" where
  "not_found_message dir = ''Image directory '' @ [CHR 0x27] @ dir @ [CHR 0x27] @ '' not found.''"

text \<open>
  Lines 221 to 224, and again 237 to 240: the ten best indices are taken, the label file is
  loaded, and one line is printed per index.
\<close>

definition print_line ::
  "string list \<Rightarrow> 'a list \<Rightarrow> (string \<times> 'a) list \<Rightarrow> nat \<Rightarrow> error + (string \<times> 'a) list" where
  "print_line labels results printed i =
     (case index labels i of
        Inl e \<Rightarrow> Inl e
      | Inr l \<Rightarrow> Inr (printed @ [(l, results ! i)]))"

definition print_top ::
  "'a env \<Rightarrow> config \<Rightarrow> ('a::linorder) list \<Rightarrow> (string \<times> 'a) list \<Rightarrow> error + (string \<times> 'a) list" where
  "print_top E c results printed =
     (let top_k = top_indices 10 results in
      case load_labels E (label_file c) of
        Inl e \<Rightarrow> Inl e
      | Inr labels \<Rightarrow> for_each (print_line labels results) printed top_k)"

section \<open>Top-K evaluation mode\<close>

record 'a topk_state =
  file_list :: "string list"
  evaluated_images :: nat
  final_results :: "'a list list"
  ground_truth :: "int list"
  error_log :: "string list"

definition topk_init :: "'a topk_state" where
  "topk_init =
     \<lparr>file_list = [], evaluated_images = 0, final_results = [], ground_truth = [],
      error_log = []\<rparr>"

text \<open>The body of \<^verbatim>\<open>for file in file_list\<close>, lines 169 to 179.\<close>

definition evaluate_image ::
  "('a::field) env \<Rightarrow> config \<Rightarrow> ('a tensor \<Rightarrow> error + 'a list) \<Rightarrow> int \<Rightarrow>
   'a topk_state \<Rightarrow> string \<Rightarrow> error + 'a topk_state" where
  "evaluate_image E c run truth st file =
     (let st = st\<lparr>ground_truth := ground_truth st @ [truth]\<rparr>;
          st = st\<lparr>evaluated_images := evaluated_images st + 1\<rparr>
      in case classify E c run file of
           Inl e \<Rightarrow> Inl e
         | Inr results \<Rightarrow>
             (case np_append (final_results st) results of
                Inl e \<Rightarrow> Inl e
              | Inr fr \<Rightarrow> Inr (st\<lparr>final_results := fr\<rparr>)))"

text \<open>The body of \<^verbatim>\<open>for i in range(0, 99)\<close>, lines 161 to 180.\<close>

definition evaluate_folder ::
  "('a::field) env \<Rightarrow> config \<Rightarrow> ('a tensor \<Rightarrow> error + 'a list) \<Rightarrow>
   'a topk_state \<Rightarrow> nat \<Rightarrow> error + 'a topk_state" where
  "evaluate_folder E c run st i =
     (let truth = int i;
          dir = folder_name c @ ''/'' @ str_nat i;
          st = (if \<not> gfile_Exists (fs E) dir
                then st\<lparr>error_log := error_log st @ [not_found_message dir]\<rparr> else st);
          st = st\<lparr>file_list := glob_extensions (fs E) dir (file_list st)\<rparr>
      in case for_each (evaluate_image E c run truth) st (file_list st) of
           Inl e \<Rightarrow> Inl e
         | Inr st \<Rightarrow> Inr (st\<lparr>file_list := []\<rparr>))"

text \<open>
  The body of \<^verbatim>\<open>for j in top_k\<close>, lines 189 and 190, and of
  \<^verbatim>\<open>for results, truth in zip(final_results, ground_truth)\<close>, lines 186 to 190.
  \<^verbatim>\<open>np.squeeze\<close> leaves a row of 99 values as it is.
\<close>

definition count_hit :: "string list \<Rightarrow> int \<Rightarrow> nat \<Rightarrow> nat \<Rightarrow> error + nat" where
  "count_hit labels truth prediction j =
     (case index labels j of
        Inl e \<Rightarrow> Inl e
      | Inr l \<Rightarrow>
          (case py_int l of
             Inl e \<Rightarrow> Inl e
           | Inr n \<Rightarrow> Inr (if n = truth then prediction + 1 else prediction)))"

definition count_image ::
  "string list \<Rightarrow> nat \<Rightarrow> nat \<Rightarrow> ('a::linorder) list \<times> int \<Rightarrow> error + nat" where
  "count_image labels k prediction rt =
     (case rt of (results, truth) \<Rightarrow>
        for_each (count_hit labels truth) prediction (top_indices k results))"

text \<open>
  \<^verbatim>\<open>prediction / evaluated_images\<close> under \<^verbatim>\<open>from __future__ import division\<close>: the
  quotient of two integers, here as a rational number (Python rounds it to a float).
\<close>

definition accuracy :: "nat \<Rightarrow> nat \<Rightarrow> error + rat" where
  "accuracy prediction n =
     (if n = 0 then Inl ZeroDivisionError else Inr (of_nat prediction / of_nat n))"

record topk_output =
  summaries :: "(nat \<times> rat) list"
  printed :: "(nat \<times> rat \<times> nat) list"

text \<open>The body of \<^verbatim>\<open>for k in range(1, 100)\<close>, lines 183 to 194.\<close>

definition report_k ::
  "('a::linorder) env \<Rightarrow> config \<Rightarrow> 'a topk_state \<Rightarrow> topk_output \<Rightarrow> nat \<Rightarrow> error + topk_output" where
  "report_k E c st out k =
     (case load_labels E (label_file c) of
        Inl e \<Rightarrow> Inl e
      | Inr labels \<Rightarrow>
          (case for_each (count_image labels k) 0 (zip (final_results st) (ground_truth st)) of
             Inl e \<Rightarrow> Inl e
           | Inr prediction \<Rightarrow>
               (case accuracy prediction (evaluated_images st) of
                  Inl e \<Rightarrow> Inl e
                | Inr acc \<Rightarrow>
                    Inr \<lparr>summaries = summaries out @ [(k, acc)],
                         printed = printed out @ [(k, acc * 100, evaluated_images st)]\<rparr>)))"

text \<open>
  Line 148 names the summary directory after \<^verbatim>\<open>model_file.split('/')[6].split('_output')[0]\<close>.
\<close>

definition model_tag :: "string \<Rightarrow> error + string" where
  "model_tag mf =
     (case index (split_on (CHR ''/'') mf) 6 of
        Inl e \<Rightarrow> Inl e
      | Inr part \<Rightarrow> Inr (before_first ''_output'' part))"

record 'a topk_result =
  writer_dir :: string
  collected :: "'a topk_state"
  reported :: topk_output

definition top_k_mode ::
  "('a::linordered_field) env \<Rightarrow> args \<Rightarrow> config \<Rightarrow> ('a tensor \<Rightarrow> error + 'a list) \<Rightarrow>
   error + 'a topk_result" where
  "top_k_mode E a c run =
     (case model_tag (model_file c) of
        Inl e \<Rightarrow> Inl e
      | Inr tag \<Rightarrow>
          (case for_each (evaluate_folder E c run) topk_init [0..<99] of
             Inl e \<Rightarrow> Inl e
           | Inr st \<Rightarrow>
               (case for_each (report_k E c st) \<lparr>summaries = [], printed = []\<rparr> [1..<100] of
                  Inl e \<Rightarrow> Inl e
                | Inr out \<Rightarrow>
                    Inr \<lparr>writer_dir = arg_summaries_dir a @ ''/'' @ tag @ ''_top_k'',
                         collected = st, reported = out\<rparr>)))"

section \<open>Voting mode\<close>

record 'a vote_state =
  vote_final_results :: "'a list list"
  vote_results :: "'a list"
  vote_printed :: "(string \<times> 'a) list"

text \<open>The body of \<^verbatim>\<open>for file in file_list\<close>, lines 209 to 224.\<close>

definition vote_image ::
  "('a::linordered_field) env \<Rightarrow> config \<Rightarrow> ('a tensor \<Rightarrow> error + 'a list) \<Rightarrow>
   'a vote_state \<Rightarrow> string \<Rightarrow> error + 'a vote_state" where
  "vote_image E c run st file =
     (case classify E c run file of
        Inl e \<Rightarrow> Inl e
      | Inr results \<Rightarrow>
          (case np_append (vote_final_results st) results of
             Inl e \<Rightarrow> Inl e
           | Inr fr \<Rightarrow>
               (let results = np_sum (add_scores E) fr in
                case print_top E c results (vote_printed st) of
                  Inl e \<Rightarrow> Inl e
                | Inr p \<Rightarrow>
                    Inr \<lparr>vote_final_results = fr, vote_results = results, vote_printed = p\<rparr>)))"

record 'a vote_result =
  vote_log :: "string list"
  vote_files :: "string list"
  vote_final :: "'a vote_state"

text \<open>Lines 198 to 224. The directory searched is \<^verbatim>\<open>file_name\<close>.\<close>

definition vote_mode ::
  "('a::linordered_field) env \<Rightarrow> config \<Rightarrow> ('a tensor \<Rightarrow> error + 'a list) \<Rightarrow>
   error + 'a vote_result" where
  "vote_mode E c run =
     (let lg = (if \<not> gfile_Exists (fs E) (file_name c)
                then [not_found_message (file_name c)] else []);
          fl = glob_extensions (fs E) (file_name c) []
      in case for_each (vote_image E c run)
                \<lparr>vote_final_results = [], vote_results = [], vote_printed = []\<rparr> fl of
           Inl e \<Rightarrow> Inl e
         | Inr st \<Rightarrow> Inr \<lparr>vote_log = lg, vote_files = fl, vote_final = st\<rparr>)"

section \<open>Single-image mode\<close>

text \<open>
  \<^verbatim>\<open>np.squeeze\<close> turns the array of shape \<open>(1, m)\<close> into the vector of its \<open>m\<close> values,
  unless \<open>m = 1\<close>: what numpy then does with the resulting scalar is not modelled.
\<close>

definition np_squeeze :: "'b list \<Rightarrow> error + 'b list" where
  "np_squeeze row = (if length row = 1 then Inl NotModelled else Inr row)"

text \<open>Lines 226 to 240.\<close>

definition single_mode ::
  "('a::linordered_field) env \<Rightarrow> config \<Rightarrow> ('a tensor \<Rightarrow> error + 'a list) \<Rightarrow>
   error + (string \<times> 'a) list" where
  "single_mode E c run =
     (case classify E c run (file_name c) of
        Inl e \<Rightarrow> Inl e
      | Inr results \<Rightarrow>
          (case np_squeeze results of
             Inl e \<Rightarrow> Inl e
           | Inr results \<Rightarrow> print_top E c results []))"

section \<open>The script\<close>

datatype 'a outcome =
    TopK "'a topk_result"
  | Vote "'a vote_result"
  | Single "(string \<times> 'a) list"

definition main :: "('a::linordered_field) env \<Rightarrow> cmdline \<Rightarrow> error + 'a outcome" where
  "main E cl =
     (case parse_args cl of
        Inl e \<Rightarrow> Inl e
      | Inr a \<Rightarrow>
          (let c = configure a in
           case load_graph E (model_file c) (''import/'' @ input_layer c)
                  (''import/'' @ output_layer c) of
             Inl e \<Rightarrow> Inl e
           | Inr run \<Rightarrow>
               (case select_mode a of
                  TopKMode \<Rightarrow> map_sum id TopK (top_k_mode E a c run)
                | VoteMode \<Rightarrow> map_sum id Vote (vote_mode E c run)
                | SingleMode \<Rightarrow> map_sum id Single (single_mode E c run))))"

section \<open>Notions used in the statements\<close>

text \<open>The lines printed for one score vector: label and score of its ten best indices.\<close>

definition rank_lines :: "string list \<Rightarrow> ('a::linorder) list \<Rightarrow> (string \<times> 'a) list" where
  "rank_lines labels results = map (\<lambda>i. (labels ! i, results ! i)) (top_indices 10 results)"

text \<open>
  The lines of a text: pieces that make up the text in order, none of them empty, with a
  line feed nowhere but at the end of a piece, and at the end of every piece but the last,
  which may lack it.
\<close>

definition lines_of :: "string \<Rightarrow> string list \<Rightarrow> bool" where
  "lines_of s ls \<longleftrightarrow>
     concat ls = s
   \<and> list_all (\<lambda>l. l \<noteq> [] \<and> CHR 0x0A \<notin> set (butlast l)) ls
   \<and> list_all (\<lambda>l. last l = CHR 0x0A) (butlast ls)"

text \<open>The ten lines that a voting run printed last: its final ranking.\<close>

definition final_ranking :: "'a vote_state \<Rightarrow> (string \<times> 'a) list" where
  "final_ranking st = drop (length (vote_printed st) - 10) (vote_printed st)"

text \<open>
  No rounding error in the sums of the rows: at every class, adding the scores of the rows
  one after the other gives their exact sum.
\<close>

definition adds_exactly :: "('a \<Rightarrow> 'a \<Rightarrow> 'a) \<Rightarrow> ('a::comm_monoid_add) list list \<Rightarrow> bool" where
  "adds_exactly add rows \<longleftrightarrow>
     list_all (\<lambda>j. foldl add 0 (map (\<lambda>row. row ! j) rows) = sum_list (map (\<lambda>row. row ! j) rows))
       [0..<99]"

text \<open>A directory as the start of a path: closed by a slash unless empty or closed already.\<close>

definition dir_prefix :: "string \<Rightarrow> string" where
  "dir_prefix d = (if d = [] \<or> last d = CHR ''/'' then d else d @ ''/'')"

text \<open>
  The entries of a directory whose names end in one of the four extensions the script looks
  for, as paths, extension by extension; nothing for a path that is no directory.
\<close>

definition jpeg_files :: "filesystem \<Rightarrow> string \<Rightarrow> string list" where
  "jpeg_files F d =
     (case F (strip_slashes d) of
        Some (Dir names) \<Rightarrow>
          concat (map (\<lambda>e. map (\<lambda>n. dir_prefix d @ n) (filter (\<lambda>n. endswith n (''.'' @ e)) names))
                    [''jpg'', ''jpeg'', ''JPG'', ''JPEG''])
      | _ \<Rightarrow> [])"

text \<open>
  How often, over the evaluated images, a label among the \<open>k\<close> best of an image reads as
  its ground truth; \<open>ints\<close> are the integers the labels stand for.
\<close>

definition top_k_hits :: "int list \<Rightarrow> nat \<Rightarrow> (('a::linorder) list \<times> int) list \<Rightarrow> nat" where
  "top_k_hits ints k images =
     sum_list (map (\<lambda>(results, truth).
                      length (filter (\<lambda>j. ints ! j = truth) (top_indices k results))) images)"

section \<open>Example inputs\<close>

text \<open>
  A small world to run the model in: a file system with one image for single-image mode,
  one numbered folder for top-K mode and one folder for voting mode; decoders that give
  a 2 by 2 picture of one colour, which is the length of the file's path; a resize that
  repeats that colour; and a graph whose 99 scores are the multiples of the first value of
  its input.
\<close>

definition toy_fs :: filesystem where
  "toy_fs p =
     (if p = ''/img/cat.jpg'' then Some File
      else if p = ''/img/alpha.bmp'' then Some File
      else if p = top_k_folder @ ''/0'' then Some (Dir [''a.jpg'', ''notes.txt''])
      else if p = top_k_folder @ ''/0/a.jpg'' then Some File
      else if p = vote_folder @ ''/set1'' then Some (Dir [''a.jpg'', ''bb.jpg'', ''c.png''])
      else if p = vote_folder @ ''/set1/a.jpg'' then Some File
      else if p = vote_folder @ ''/set1/bb.jpg'' then Some File
      else if p = vote_folder @ ''/set1/c.png'' then Some File
      else None)"

definition empty_fs :: filesystem where
  "empty_fs p = None"

definition toy_decode :: "string \<Rightarrow> nat \<Rightarrow> nat tensor" where
  "toy_decode contents ch = \<lparr>shape = [2, 2, ch], elems = replicate (4 * ch) (length contents)\<rparr>"

definition toy_resize :: "rat tensor \<Rightarrow> int \<Rightarrow> int \<Rightarrow> error + rat tensor" where
  "toy_resize t h w =
     (case shape t of
        [b, h0, w0, ch] \<Rightarrow>
          if 0 < h \<and> 0 < w \<and> elems t \<noteq> []
          then Inr \<lparr>shape = [b, nat h, nat w, ch],
                    elems = replicate (b * nat h * nat w * ch) (hd (elems t))\<rparr>
          else Inl InvalidArgumentError
      | _ \<Rightarrow> Inl InvalidArgumentError)"

definition toy_run :: "rat tensor \<Rightarrow> error + rat list" where
  "toy_run t = Inr (map (\<lambda>j. of_nat j * hd (elems t)) [0..<99])"

text \<open>The scores that graph gives the picture decoded from the file at a path.\<close>

definition toy_row :: "string \<Rightarrow> rat list" where
  "toy_row f = map (\<lambda>j. of_nat j * (of_nat (length f) / 255)) [0..<99]"

definition short_run :: "rat tensor \<Rightarrow> error + rat list" where
  "short_run t = Inr [1, 2, 3, 4, 5]"

definition toy_env :: "filesystem \<Rightarrow> string \<Rightarrow> rat env" where
  "toy_env F label_text =
     \<lparr>fs = F,
      read_text = (\<lambda>f. if f = ''labels.txt'' then Inr label_text else Inl NotFoundError),
      read_file = (\<lambda>f. if F (strip_slashes f) = Some File then Inr f else Inl NotFoundError),
      decode_png = (\<lambda>b ch. Inr (toy_decode b ch)),
      decode_gif = (\<lambda>b. Inr \<lparr>shape = [1, 2, 2, 3], elems = replicate 12 (length b)\<rparr>),
      decode_bmp = (\<lambda>b. Inr (toy_decode b 4)),
      decode_jpeg = (\<lambda>b ch. Inr (toy_decode b ch)),
      resize_bilinear = toy_resize,
      load_graph = (\<lambda>m i out. Inr toy_run),
      add_scores = (+)\<rparr>"

text \<open>Label files: the numbers 0 to 98, one per line; and a file of 100 lines that has 0 twice.\<close>

definition number_lines :: "nat list \<Rightarrow> string" where
  "number_lines ns = concat (map (\<lambda>n. str_nat n @ [CHR 0x0A]) ns)"

definition toy_labels :: string where
  "toy_labels = number_lines [0..<99]"

definition doubled_labels :: string where
  "doubled_labels = number_lines (0 # [0..<99])"

definition toy_config :: config where
  "toy_config =
     defaults\<lparr>file_name := ''/img/cat.jpg'', folder_name := top_k_folder,
              model_file := ''/a/b/c/d/e/toy_output_graph.pb'', label_file := ''labels.txt'',
              input_height := 2, input_width := 2\<rparr>"

definition toy_vote_config :: config where
  "toy_vote_config = toy_config\<lparr>file_name := vote_folder @ ''/set1'', folder_name := vote_folder\<rparr>"


definition toy_args :: args where
  "toy_args =
     \<lparr>arg_image = Some ''set1'', arg_vote = Some True, arg_graph = None, arg_labels = None,
      arg_input_height = Some 0, arg_input_width = None, arg_input_mean = None,
      arg_input_std = None, arg_input_layer = None, arg_output_layer = None,
      arg_top_k_graph = None, arg_summaries_dir = default_summaries_dir\<rparr>"

text \<open>
  A command line with \<^verbatim>\<open>--vote True\<close> and nothing else, and a file system that holds the
  default image and nothing else: the voting folder is not there.
\<close>

definition vote_cmdline :: cmdline where
  "vote_cmdline =
     \<lparr>cl_image = None, cl_vote = Some ''True'', cl_graph = None, cl_labels = None,
      cl_input_height = None, cl_input_width = None, cl_input_mean = None,
      cl_input_std = None, cl_input_layer = None, cl_output_layer = None,
      cl_top_k_graph = None, cl_summaries_dir = None\<rparr>"

definition vote_args :: args where
  "vote_args =
     \<lparr>arg_image = None, arg_vote = Some True, arg_graph = None, arg_labels = None,
      arg_input_height = None, arg_input_width = None, arg_input_mean = None,
      arg_input_std = None, arg_input_layer = None, arg_output_layer = None,
      arg_top_k_graph = None, arg_summaries_dir = default_summaries_dir\<rparr>"

definition default_image_fs :: filesystem where
  "default_image_fs p = (if p = file_name defaults then Some File else None)"

text \<open>
  For sums of float64 numbers: a voting folder that lists four pictures in a given order;
  the example environment with the float64 addition; and a graph that gives the picture
  with the shortest name the scores 1 and 1 for the classes 0 and 1, the next one
  \<open>1 / 2 ^ 53\<close> and \<open>1 / 2 ^ 52\<close>, any other \<open>1 / 2 ^ 53\<close> and 0, and every picture the
  score 0 for each of the other 97 classes. All these scores are float32 numbers.
\<close>

definition listed_fs :: "string list \<Rightarrow> filesystem" where
  "listed_fs names p =
     (if p = vote_folder @ ''/set1'' then Some (Dir names)
      else if p \<in> set (map (\<lambda>n. vote_folder @ ''/set1/'' @ n) names) then Some File
      else None)"

definition float_env :: "filesystem \<Rightarrow> rat env" where
  "float_env F = (toy_env F toy_labels)\<lparr>add_scores := float64_add\<rparr>"

definition float_scores :: "nat \<Rightarrow> rat list" where
  "float_scores n =
     (if n = length (vote_folder @ ''/set1/a.jpg'') then [1, 1]
      else if n = length (vote_folder @ ''/set1/bb.jpg'') then [1 / 2 ^ 53, 1 / 2 ^ 52]
      else [1 / 2 ^ 53, 0]) @ replicate 97 0"

definition float_run :: "rat tensor \<Rightarrow> error + rat list" where
  "float_run t = Inr (float_scores (nat \<lfloor>hd (elems t) * 255\<rfloor>))"

section \<open>Loops and sorting\<close>

lemma argsort_length: "length (argsort a) = length a"
  by (simp add: argsort_def)

lemma argsort_set: "set (argsort a) = {0..<length a}"
  by (simp add: argsort_def)

lemma argsort_distinct: "distinct (argsort a)"
  by (simp add: argsort_def)

lemma argsort_sorted: "sorted (map (\<lambda>i. a ! i) (argsort a))"
  by (simp add: argsort_def)

lemma argsort_mset: "mset (argsort a) = mset [0..<length a]"
  by (simp add: argsort_def)

lemma top_indices_length: "0 < k \<Longrightarrow> length (top_indices k a) = min k (length a)"
  by (auto simp: top_indices_def last_k_def argsort_length)

lemma top_indices_distinct: "distinct (top_indices k a)"
  by (simp add: top_indices_def last_k_def argsort_distinct)

lemma top_indices_subset: "set (top_indices k a) \<subseteq> {0..<length a}"
proof -
  have "set (last_k k (argsort a)) \<subseteq> set (argsort a)"
    by (auto simp: last_k_def dest: in_set_dropD)
  then show ?thesis by (simp add: top_indices_def argsort_set)
qed

lemma top_indices_descending:
  "sorted_wrt (\<lambda>x y. y \<le> x) (map (\<lambda>i. a ! i) (top_indices k a))"
proof -
  have "sorted (map (\<lambda>i. a ! i) (last_k k (argsort a)))"
    using argsort_sorted [of a]
    by (auto simp: last_k_def drop_map [symmetric] intro: sorted_wrt_drop)
  then have "sorted_wrt (\<lambda>x y. y \<le> x) (rev (map (\<lambda>i. a ! i) (last_k k (argsort a))))"
    by (simp add: sorted_wrt_rev)
  then show ?thesis by (simp add: top_indices_def rev_map)
qed

text \<open>Whatever is left out of the best \<open>k\<close> scores no more than whatever is among them.\<close>

lemma top_indices_best:
  assumes "j < length a" "j \<notin> set (top_indices k a)" "i \<in> set (top_indices k a)"
  shows "a ! j \<le> a ! i"
proof (cases "k = 0")
  case True
  with assms show ?thesis by (simp add: top_indices_def last_k_def argsort_set)
next
  case False
  let ?s = "argsort a"
  let ?n = "length ?s - k"
  have split: "?s = take ?n ?s @ drop ?n ?s" by simp
  have i: "i \<in> set (drop ?n ?s)" using assms(3) False by (simp add: top_indices_def last_k_def)
  have "j \<in> set ?s" using assms(1) by (simp add: argsort_set)
  then have "j \<in> set (take ?n ?s) \<union> set (drop ?n ?s)" by (metis set_append split)
  then have j: "j \<in> set (take ?n ?s)"
    using assms(2) False by (simp add: top_indices_def last_k_def)
  have "sorted (map (\<lambda>i. a ! i) (take ?n ?s) @ map (\<lambda>i. a ! i) (drop ?n ?s))"
    using argsort_sorted [of a] by (metis map_append split)
  then show ?thesis using i j by (auto simp: sorted_append)
qed

text \<open>An index that scores more than every other one comes first.\<close>

lemma top_indices_unique_best:
  assumes "i < length a" "\<forall>j<length a. j \<noteq> i \<longrightarrow> a ! j < a ! i" "0 < k"
  shows "hd (top_indices k a) = i"
proof -
  let ?t = "top_indices k a"
  have "length ?t = min k (length a)" using assms(3) by (rule top_indices_length)
  then have ne: "?t \<noteq> []" using assms(1,3) by auto
  then have h: "hd ?t \<in> set ?t" by simp
  then have hl: "hd ?t < length a" using top_indices_subset [of k a] by auto
  have i: "i \<in> set ?t"
  proof (rule ccontr)
    assume "i \<notin> set ?t"
    then have "a ! i \<le> a ! hd ?t" using assms(1) h by (intro top_indices_best)
    moreover have "hd ?t \<noteq> i" using h \<open>i \<notin> set ?t\<close> by auto
    ultimately show False using assms(2) hl by fastforce
  qed
  have "sorted_wrt (\<lambda>x y. y \<le> x) (map (\<lambda>i. a ! i) ?t)" by (rule top_indices_descending)
  then have "\<forall>y\<in>set ?t. a ! y \<le> a ! hd ?t"
    using ne by (cases ?t) auto
  then have "a ! i \<le> a ! hd ?t" using i by blast
  then show ?thesis using assms(2) hl by fastforce
qed

lemma for_each_print_line:
  "\<forall>i\<in>set idx. i < length labels \<Longrightarrow>
   for_each (print_line labels results) p idx =
     Inr (p @ map (\<lambda>i. (labels ! i, results ! i)) idx)"
  by (induction idx arbitrary: p) (auto simp: print_line_def index_def)

lemma print_top_covered:
  assumes "load_labels E (label_file c) = Inr labels" "length results \<le> length labels"
  shows "print_top E c results p = Inr (p @ rank_lines labels results)"
proof -
  have "\<forall>i\<in>set (top_indices 10 results). i < length labels"
    using top_indices_subset [of 10 results] assms(2) by auto
  then show ?thesis
    using assms(1) by (simp add: print_top_def rank_lines_def for_each_print_line)
qed

lemma map_by_nth:
  "length xs = length ys \<Longrightarrow> \<forall>i<length xs. xs ! i = f (ys ! i) \<Longrightarrow> xs = map f ys"
  by (simp add: list_eq_iff_nth_eq)

section \<open>The label loader\<close>

lemma cut_lines_concat: "concat (cut_lines s) = s"
  by (induction s) (auto split: list.splits)

lemma cut_lines_nonempty: "l \<in> set (cut_lines s) \<Longrightarrow> l \<noteq> []"
  by (induction s arbitrary: l) (auto split: list.splits if_splits)

lemma cut_lines_newline_last: "l \<in> set (cut_lines s) \<Longrightarrow> CHR 0x0A \<notin> set (butlast l)"
  by (induction s arbitrary: l) (auto split: list.splits if_splits dest: cut_lines_nonempty)

lemma cut_lines_terminated:
  "Suc i < length (cut_lines s) \<Longrightarrow> last (cut_lines s ! i) = CHR 0x0A"
proof (induction s arbitrary: i)
  case Nil
  then show ?case by simp
next
  case (Cons c cs)
  show ?case
  proof (cases "c = CHR 0x0A")
    case True
    with Cons show ?thesis by (cases i) auto
  next
    case False
    show ?thesis
    proof (cases "cut_lines cs")
      case Nil
      with False Cons.prems show ?thesis by simp
    next
      fix l ls
      assume rl: "cut_lines cs = l # ls"
      have l: "l \<noteq> []" using rl cut_lines_nonempty [of l cs] by simp
      have eq: "cut_lines (c # cs) = (c # l) # ls" using False rl by simp
      show ?thesis
      proof (cases i)
        case 0
        have "last (cut_lines cs ! 0) = CHR 0x0A"
          using Cons.IH [of 0] Cons.prems eq rl 0 by simp
        with 0 eq rl l show ?thesis by simp
      next
        case (Suc n)
        have "last (cut_lines cs ! Suc n) = CHR 0x0A"
          using Cons.IH [of "Suc n"] Cons.prems eq rl Suc by simp
        with Suc eq rl show ?thesis by simp
      qed
    qed
  qed
qed

lemma cut_lines_line:
  "CHR 0x0A \<notin> set l \<Longrightarrow> cut_lines (l @ CHR 0x0A # rest) = (l @ [CHR 0x0A]) # cut_lines rest"
  by (induction l) auto

lemma cut_lines_unterminated: "CHR 0x0A \<notin> set l \<Longrightarrow> l \<noteq> [] \<Longrightarrow> cut_lines l = [l]"
proof (induction l)
  case Nil
  then show ?case by simp
next
  case (Cons c cs)
  then show ?case by (cases cs) auto
qed

lemma cut_lines_one:
  assumes "l \<noteq> []" "CHR 0x0A \<notin> set (butlast l)"
  shows "cut_lines l = [l]"
proof (cases "last l = CHR 0x0A")
  case True
  then have l: "l = butlast l @ [CHR 0x0A]" using assms(1) by (metis append_butlast_last_id)
  have "cut_lines (butlast l @ CHR 0x0A # []) = (butlast l @ [CHR 0x0A]) # cut_lines []"
    using assms(2) by (rule cut_lines_line)
  then show ?thesis using l by simp
next
  case False
  have "set l = set (butlast l) \<union> {last l}"
    using assms(1) by (metis append_butlast_last_id list.simps(15) rotate1.simps(2) set_rotate1 
        Un_commute insert_is_Un)
  then have "CHR 0x0A \<notin> set l" using False assms(2) by auto
  then show ?thesis using assms(1) by (rule cut_lines_unterminated)
qed

text \<open>Cutting after the line feeds gives the lines of a text, and nothing else does.\<close>

lemma lines_of_cut_lines: "lines_of s (cut_lines s)"
proof -
  have "\<forall>l\<in>set (cut_lines s). l \<noteq> [] \<and> CHR 0x0A \<notin> set (butlast l)"
    using cut_lines_nonempty cut_lines_newline_last by blast
  moreover have "\<forall>l\<in>set (butlast (cut_lines s)). last l = CHR 0x0A"
  proof
    fix l
    assume "l \<in> set (butlast (cut_lines s))"
    then obtain i where i: "i < length (butlast (cut_lines s))" "butlast (cut_lines s) ! i = l"
      by (auto simp: in_set_conv_nth)
    then have "Suc i < length (cut_lines s)" "cut_lines s ! i = l"
      by (simp_all add: nth_butlast)
    then show "last l = CHR 0x0A" using cut_lines_terminated [of i s] by simp
  qed
  ultimately show ?thesis by (simp add: lines_of_def list_all_iff cut_lines_concat)
qed

lemma lines_of_unique: "lines_of s ls \<Longrightarrow> ls = cut_lines s"
proof (induction ls arbitrary: s)
  case Nil
  then show ?case by (simp add: lines_of_def)
next
  case (Cons l ls)
  have s: "s = l @ concat ls" and l: "l \<noteq> []" "CHR 0x0A \<notin> set (butlast l)"
    and rest: "list_all (\<lambda>l. l \<noteq> [] \<and> CHR 0x0A \<notin> set (butlast l)) ls"
    using Cons.prems by (simp_all add: lines_of_def)
  show ?case
  proof (cases "ls = []")
    case True
    then show ?thesis using s l cut_lines_one [of l] by simp
  next
    case False
    then have "list_all (\<lambda>l. last l = CHR 0x0A) (l # butlast ls)"
      using Cons.prems by (simp add: lines_of_def)
    then have last: "last l = CHR 0x0A" and more: "list_all (\<lambda>l. last l = CHR 0x0A) (butlast ls)"
      by simp_all
    have "lines_of (concat ls) ls" using rest more by (simp add: lines_of_def)
    then have ih: "ls = cut_lines (concat ls)" by (rule Cons.IH)
    have bl: "l = butlast l @ [CHR 0x0A]" using l(1) last by (metis append_butlast_last_id)
    have "cut_lines (butlast l @ CHR 0x0A # concat ls)
            = (butlast l @ [CHR 0x0A]) # cut_lines (concat ls)"
      using l(2) by (rule cut_lines_line)
    moreover have "s = butlast l @ CHR 0x0A # concat ls" using s bl by (metis append.assoc append_Cons append_Nil)
    ultimately show ?thesis using ih bl by simp
  qed
qed

lemma rstrip_decomp: "\<exists>ws. s = rstrip s @ ws \<and> list_all isspace ws"
proof -
  have "rev s = takeWhile isspace (rev s) @ dropWhile isspace (rev s)" by simp
  then have "s = rev (dropWhile isspace (rev s)) @ rev (takeWhile isspace (rev s))"
    by (metis rev_append rev_rev_ident)
  moreover have "list_all isspace (rev (takeWhile isspace (rev s)))"
    by (simp add: list_all_iff) (meson set_takeWhileD)
  ultimately show ?thesis unfolding rstrip_def by blast
qed

lemma rstrip_last: "rstrip s = [] \<or> \<not> isspace (last (rstrip s))"
proof (cases "dropWhile isspace (rev s)")
  case Nil
  then show ?thesis by (simp add: rstrip_def)
next
  case (Cons x xs)
  then have "\<not> isspace x" by (metis hd_dropWhile list.sel(1) list.distinct(1))
  with Cons show ?thesis by (simp add: rstrip_def)
qed

text \<open>
  C8 (amended). For a label file that can be read, \<open>load_labels\<close> returns one string per line, in
  the order of the file, of the text of the file without its carriage returns, which the
  reader never copies. The text has exactly one list of lines: the pieces that make it up,
  each ending at a line feed, the last possibly without one. The string at a position is
  the line at that position with its trailing whitespace removed: only whitespace was taken
  from the end and the string ends in no whitespace.
\<close>

theorem load_labels_one_per_line:
  assumes "read_text E f = Inr content"
  shows "\<exists>ls label.
           lines_of (filter (\<lambda>c. c \<noteq> CHR 0x0D) content) ls
         \<and> (\<forall>ls'. lines_of (filter (\<lambda>c. c \<noteq> CHR 0x0D) content) ls' \<longrightarrow> ls' = ls)
         \<and> load_labels E f = Inr label
         \<and> length label = length ls
         \<and> (\<forall>i<length label.
               label ! i = rstrip (ls ! i)
             \<and> (\<exists>ws. ls ! i = label ! i @ ws \<and> list_all isspace ws)
             \<and> (label ! i = [] \<or> \<not> isspace (last (label ! i))))"
proof -
  let ?text = "filter (\<lambda>c. c \<noteq> CHR 0x0D) content"
  let ?ls = "cut_lines ?text"
  let ?label = "map rstrip ?ls"
  have "load_labels E f = Inr ?label" using assms by (simp add: load_labels_def readlines_def)
  moreover have "\<forall>i<length ?label.
       ?label ! i = rstrip (?ls ! i)
     \<and> (\<exists>ws. ?ls ! i = ?label ! i @ ws \<and> list_all isspace ws)
     \<and> (?label ! i = [] \<or> \<not> isspace (last (?label ! i)))"
    using rstrip_decomp rstrip_last by simp
  moreover have "lines_of ?text ?ls" by (rule lines_of_cut_lines)
  moreover have "\<forall>ls'. lines_of ?text ls' \<longrightarrow> ls' = ?ls" using lines_of_unique by blast
  moreover have "length ?label = length ?ls" by simp
  ultimately show ?thesis by blast
qed

theorem load_labels_one_per_line_witness:
  "read_text (toy_env empty_fs (''cat  '' @ [CHR 0x0D, CHR 0x0A] @ ''dog'')) ''labels.txt''
     = Inr (''cat  '' @ [CHR 0x0D, CHR 0x0A] @ ''dog'')
   \<and> load_labels (toy_env empty_fs (''cat  '' @ [CHR 0x0D, CHR 0x0A] @ ''dog'')) ''labels.txt''
     = Inr [''cat'', ''dog'']"
proof -
  let ?text = "''cat  '' @ [CHR 0x0D, CHR 0x0A] @ ''dog''"
  let ?lines = "[''cat  '' @ [CHR 0x0A], ''dog'']"
  have h: "read_text (toy_env empty_fs ?text) ''labels.txt'' = Inr ?text"
    by (simp add: toy_env_def)
  have c: "lines_of (filter (\<lambda>c. c \<noteq> CHR 0x0D) ?text) ?lines"
    by (simp add: lines_of_def)
  from load_labels_one_per_line [OF h] obtain ls label
    where u: "\<forall>ls'. lines_of (filter (\<lambda>c. c \<noteq> CHR 0x0D) ?text) ls' \<longrightarrow> ls' = ls"
      and l: "load_labels (toy_env empty_fs ?text) ''labels.txt'' = Inr label"
      and n: "length label = length ls"
      and i: "\<forall>i<length label. label ! i = rstrip (ls ! i)"
    by blast
  have "ls = ?lines" using u c by blast
  moreover have "label = map rstrip ls"
    using n i by (rule map_by_nth)
  moreover have "map rstrip ?lines = [''cat'', ''dog'']"
    by (simp add: rstrip_def isspace_def)
  ultimately show ?thesis using h l by simp
qed

text \<open>
  The file \<^verbatim>\<open>a\<close>, carriage return, \<^verbatim>\<open>b\<close>, line feed has one line, which ends in the line
  feed. Without its trailing whitespace that line still holds the carriage return;
  \<open>load_labels\<close> returns the label \<^verbatim>\<open>ab\<close>.
\<close>

theorem load_labels_drops_carriage_returns_counterexample:
  "lines_of [CHR ''a'', CHR 0x0D, CHR ''b'', CHR 0x0A] [[CHR ''a'', CHR 0x0D, CHR ''b'', CHR 0x0A]]
   \<and> rstrip [CHR ''a'', CHR 0x0D, CHR ''b'', CHR 0x0A] = [CHR ''a'', CHR 0x0D, CHR ''b'']
   \<and> load_labels (toy_env empty_fs [CHR ''a'', CHR 0x0D, CHR ''b'', CHR 0x0A]) ''labels.txt''
       = Inr [''ab'']
   \<and> load_labels (toy_env empty_fs [CHR ''a'', CHR 0x0D, CHR ''b'', CHR 0x0A]) ''labels.txt''
       \<noteq> Inr (map rstrip [[CHR ''a'', CHR 0x0D, CHR ''b'', CHR 0x0A]])"
  by (simp add: lines_of_def rstrip_def isspace_def load_labels_def readlines_def toy_env_def)

section \<open>Numbers as text\<close>

lemma digit_char_is_digit: "d < 10 \<Longrightarrow> is_digit (digit_char d)"
  by (simp add: is_digit_def digit_char_def)

lemma digit_char_value: "d < 10 \<Longrightarrow> (of_char (digit_char d) :: nat) - 48 = d"
  by (simp add: digit_char_def)

lemma is_digit_not_space: "is_digit c \<Longrightarrow> \<not> isspace c"
  by (simp add: is_digit_def isspace_def)

lemma is_digit_not_newline: "is_digit c \<Longrightarrow> c \<noteq> CHR 0x0A"
  by (auto simp: is_digit_def)

lemma is_digit_not_sign: "is_digit c \<Longrightarrow> c \<noteq> CHR ''-'' \<and> c \<noteq> CHR ''+''"
  by (auto simp: is_digit_def)

lemma is_digit_not_underscore: "is_digit c \<Longrightarrow> c \<noteq> CHR ''_''"
  by (auto simp: is_digit_def)

lemma is_digit_not_return: "is_digit c \<Longrightarrow> c \<noteq> CHR 0x0D"
  by (auto simp: is_digit_def)

lemma digit_groups_digits: "ds \<noteq> [] \<Longrightarrow> list_all is_digit ds \<Longrightarrow> digit_groups ds"
  by (induction ds rule: digit_groups.induct) (auto simp: is_digit_not_underscore)

lemma digits_ungrouped: "list_all is_digit ds \<Longrightarrow> filter (\<lambda>c. c \<noteq> CHR ''_'') ds = ds"
  by (induction ds) (auto simp: is_digit_not_underscore)

declare str_nat.simps [simp del]

lemma str_nat_small: "n < 10 \<Longrightarrow> str_nat n = [digit_char n]"
  by (subst str_nat.simps) simp

lemma str_nat_big: "\<not> n < 10 \<Longrightarrow> str_nat n = str_nat (n div 10) @ [digit_char (n mod 10)]"
  by (subst str_nat.simps) simp

lemma str_nat_digits: "list_all is_digit (str_nat n)"
proof (induction n rule: str_nat.induct)
  case (1 n)
  show ?case
  proof (cases "n < 10")
    case True
    then show ?thesis by (simp add: str_nat_small digit_char_is_digit)
  next
    case False
    then have "list_all is_digit (str_nat (n div 10))" using 1 by simp
    moreover have "is_digit (digit_char (n mod 10))" by (simp add: digit_char_is_digit)
    ultimately show ?thesis using False by (simp add: str_nat_big)
  qed
qed

lemma str_nat_nonempty: "str_nat n \<noteq> []"
  by (cases "n < 10") (simp_all add: str_nat_small str_nat_big)

lemma str_nat_value:
  "foldl (\<lambda>a d. 10 * a + ((of_char d :: nat) - 48)) 0 (str_nat n) = n"
proof (induction n rule: str_nat.induct)
  case (1 n)
  show ?case
  proof (cases "n < 10")
    case True
    then show ?thesis by (simp add: str_nat_small digit_char_value)
  next
    case False
    then have ih: "foldl (\<lambda>a d. 10 * a + ((of_char d :: nat) - 48)) 0 (str_nat (n div 10)) = n div 10"
      using 1 by simp
    have d: "(of_char (digit_char (n mod 10)) :: nat) - 48 = n mod 10"
      by (rule digit_char_value) simp
    have "str_nat n = str_nat (n div 10) @ [digit_char (n mod 10)]"
      using False by (rule str_nat_big)
    then have "foldl (\<lambda>a d. 10 * a + ((of_char d :: nat) - 48)) 0 (str_nat n)
          = 10 * (n div 10) + n mod 10"
      using ih d by simp
    then show ?thesis by simp
  qed
qed

lemma digits_strip: 
  assumes "s \<noteq> []" "list_all is_digit s"
  shows "strip s = s"
proof -
  obtain c cs where s: "s = c # cs" using assms(1) by (cases s) auto
  then have "\<not> isspace c" using assms(2) by (simp add: is_digit_not_space)
  then have l: "lstrip s = s" using s by (simp add: lstrip_def)
  have "is_digit (last s)" using assms by (metis last_in_set list_all_iff)
  then have "\<not> isspace (hd (rev s))" using assms(1) by (simp add: hd_rev is_digit_not_space)
  then have "dropWhile isspace (rev s) = rev s" using assms(1) by (cases "rev s") auto
  then show ?thesis using l by (simp add: strip_def rstrip_def)
qed

lemma py_int_str_nat: "py_int (str_nat n) = Inr (int n)"
proof -
  obtain c cs where s: "str_nat n = c # cs" using str_nat_nonempty [of n] by (cases "str_nat n") auto
  have d: "list_all is_digit (c # cs)" using str_nat_digits [of n] s by simp
  then have c: "c \<noteq> CHR ''-''" "c \<noteq> CHR ''+''" using is_digit_not_sign [of c] by simp_all
  have "strip (str_nat n) = c # cs" using digits_strip [of "str_nat n"] s d by simp
  moreover have "digits_value (c # cs) = Inr (int n)"
    using str_nat_value [of n] s digit_groups_digits [of "c # cs"] digits_ungrouped [OF d] d
    by (simp add: digits_value_def)
  ultimately show ?thesis using c by (simp add: py_int_def)
qed

lemma cut_lines_number_lines:
  "cut_lines (number_lines ns) = map (\<lambda>n. str_nat n @ [CHR 0x0A]) ns"
proof (induction ns)
  case Nil
  then show ?case by (simp add: number_lines_def)
next
  case (Cons n ns)
  have "CHR 0x0A \<notin> set (str_nat n)"
    using str_nat_digits [of n] is_digit_not_newline by (auto simp: list_all_iff)
  then show ?case using Cons cut_lines_line [of "str_nat n" "number_lines ns"]
    by (simp add: number_lines_def)
qed

lemma number_lines_no_return: "filter (\<lambda>c. c \<noteq> CHR 0x0D) (number_lines ns) = number_lines ns"
proof -
  have "CHR 0x0D \<notin> set (str_nat n)" for n
    using str_nat_digits [of n] is_digit_not_return by (auto simp: list_all_iff)
  then have "CHR 0x0D \<notin> set (number_lines ns)" by (auto simp: number_lines_def)
  then show ?thesis by (auto simp: filter_id_conv)
qed

lemma readlines_number_lines:
  "readlines (number_lines ns) = map (\<lambda>n. str_nat n @ [CHR 0x0A]) ns"
  by (simp add: readlines_def number_lines_no_return cut_lines_number_lines)

lemma rstrip_number_line: "rstrip (str_nat n @ [CHR 0x0A]) = str_nat n"
proof -
  have "is_digit (last (str_nat n))"
    using str_nat_digits [of n] str_nat_nonempty [of n] by (metis last_in_set list_all_iff)
  then have "\<not> isspace (hd (rev (str_nat n)))"
    using str_nat_nonempty [of n] by (simp add: hd_rev is_digit_not_space)
  then have "dropWhile isspace (rev (str_nat n)) = rev (str_nat n)"
    using str_nat_nonempty [of n] by (cases "rev (str_nat n)") auto
  moreover have "isspace (CHR 0x0A)" by (simp add: isspace_def)
  ultimately show ?thesis by (simp add: rstrip_def)
qed

lemma load_labels_number_lines:
  "load_labels (toy_env F (number_lines ns)) ''labels.txt'' = Inr (map str_nat ns)"
  by (simp add: load_labels_def toy_env_def readlines_number_lines rstrip_number_line comp_def)

section \<open>Single-image mode\<close>

lemma toy_classify_cat:
  "classify (toy_env toy_fs T) toy_config toy_run ''/img/cat.jpg''
     = Inr (map (\<lambda>j. of_nat j * (12 / 255)) [0..<99])"
  by (simp add: classify_def read_tensor_from_image_file_def toy_env_def toy_fs_def
        strip_slashes_def select_decoder_def endswith_def suffix_to_prefix image_reader_def
        toy_decode_def tf_expand_dims0_def tf_cast_float_def toy_resize_def normalized_def
        toy_run_def toy_config_def defaults_def)

text \<open>
  C2. In single-image mode, when the graph gives 99 scores for the image and the label
  file has a label for every score, exactly ten lines are printed; they pair label and
  score of ten different classes, their scores do not increase from one line to the next,
  and no class left out scores more than a class printed.
\<close>

theorem single_mode_prints_top_ten:
  assumes "classify E c run (file_name c) = Inr results"
      and "length results = 99"
      and "load_labels E (label_file c) = Inr labels"
      and "length results \<le> length labels"
  shows "\<exists>idx.
           single_mode E c run = Inr (map (\<lambda>i. (labels ! i, results ! i)) idx)
         \<and> length idx = 10 \<and> distinct idx \<and> set idx \<subseteq> {0..<99}
         \<and> sorted_wrt (\<lambda>x y. y \<le> x) (map (\<lambda>i. results ! i) idx)
         \<and> (\<forall>j<99. j \<notin> set idx \<longrightarrow> (\<forall>i\<in>set idx. results ! j \<le> results ! i))"
proof -
  let ?idx = "top_indices 10 results"
  have "np_squeeze results = Inr results" using assms(2) by (simp add: np_squeeze_def)
  then have "single_mode E c run = Inr (map (\<lambda>i. (labels ! i, results ! i)) ?idx)"
    using assms(1) print_top_covered [OF assms(3,4), of "[]"]
    by (simp add: single_mode_def rank_lines_def)
  moreover have "length ?idx = 10" using top_indices_length [of 10 results] assms(2) by simp
  moreover have "set ?idx \<subseteq> {0..<99}" using top_indices_subset [of 10 results] assms(2) by simp
  moreover have "\<forall>j<99. j \<notin> set ?idx \<longrightarrow> (\<forall>i\<in>set ?idx. results ! j \<le> results ! i)"
    using top_indices_best [of _ results 10] assms(2) by simp
  ultimately show ?thesis
    using top_indices_distinct [of 10 results] top_indices_descending [of results 10]
    by (intro exI [of _ ?idx]) simp
qed

theorem single_mode_prints_top_ten_witness:
  "length (map (\<lambda>j. of_nat j * (12 / 255 :: rat)) [0..<99]) = 99
   \<and> (\<exists>out. single_mode (toy_env toy_fs toy_labels) toy_config toy_run = Inr out
              \<and> length out = 10)"
proof -
  let ?results = "map (\<lambda>j. of_nat j * (12 / 255 :: rat)) [0..<99]"
  have h1: "classify (toy_env toy_fs toy_labels) toy_config toy_run (file_name toy_config)
              = Inr ?results"
    using toy_classify_cat [of toy_labels] by (simp add: toy_config_def)
  have h2: "length ?results = 99" by simp
  have h3: "load_labels (toy_env toy_fs toy_labels) (label_file toy_config)
              = Inr (map str_nat [0..<99])"
    using load_labels_number_lines [of toy_fs "[0..<99]"] by (simp add: toy_config_def toy_labels_def)
  have h4: "length ?results \<le> length (map str_nat [0..<99])" by simp
  from single_mode_prints_top_ten [OF h1 h2 h3 h4] obtain idx
    where "single_mode (toy_env toy_fs toy_labels) toy_config toy_run
             = Inr (map (\<lambda>i. (map str_nat [0..<99] ! i, ?results ! i)) idx)"
      and "length idx = 10"
    by blast
  then have "\<exists>out. single_mode (toy_env toy_fs toy_labels) toy_config toy_run = Inr out
              \<and> length out = 10"
    by simp
  with h2 show ?thesis by blast
qed

section \<open>The image preprocessor\<close>

text \<open>
  The decoder is chosen by the end of the file name alone: \<^verbatim>\<open>.png\<close> gives the PNG decoder,
  \<^verbatim>\<open>.gif\<close> the GIF decoder followed by a squeeze, \<^verbatim>\<open>.bmp\<close> the BMP decoder, anything else
  the JPEG decoder. The preprocessor returns a tensor exactly when reading, decoding and
  bilinear resizing all succeed; otherwise their exception ends the call. With
  \<open>input_std\<close> not zero, each element of the tensor returned is that of the resized
  tensor minus \<open>input_mean\<close>, divided by \<open>input_std\<close>, and its shape is
  \<open>(1, height, width, c)\<close> with \<open>c\<close> the number of channels decoded. That number is 3
  unless the BMP decoder was chosen: PNG and JPEG files are decoded with \<^verbatim>\<open>channels=3\<close> and
  a GIF decoder gives frames of three channels, of which the squeeze leaves the last
  dimension. What is assumed of the library: a successful resize takes a tensor of four
  dimensions and changes its height and width to those asked for; a PNG or JPEG decoder
  asked for three channels gives a picture with three channels; a GIF decoder gives frames
  by height by width by three channels.
\<close>

lemma squeezed_channels:
  assumes "filter (\<lambda>d. d \<noteq> 1) [n, h0, w0, 3] = [h1, w1, ch]"
  shows "ch = (3::nat)"
proof -
  have "last (filter (\<lambda>d. d \<noteq> 1) ([n, h0, w0] @ [3::nat])) = 3"
    unfolding filter_append by simp
  then show ?thesis using assms by simp
qed

lemma read_tensor_from_image_file_result:
  fixes E :: "('a::field) env"
  assumes resize: "\<And>t h w r. resize_bilinear E t h w = Inr r \<Longrightarrow>
             \<exists>b h0 w0 ch. shape t = [b, h0, w0, ch] \<and> shape r = [b, nat h, nat w, ch]"
      and png: "\<And>b t. decode_png E b 3 = Inr t \<Longrightarrow> \<exists>h0 w0. shape t = [h0, w0, 3]"
      and jpeg: "\<And>b t. decode_jpeg E b 3 = Inr t \<Longrightarrow> \<exists>h0 w0. shape t = [h0, w0, 3]"
      and gif: "\<And>b t. decode_gif E b = Inr t \<Longrightarrow> \<exists>n h0 w0. shape t = [n, h0, w0, 3]"
      and std: "s \<noteq> 0"
  shows "(read_tensor_from_image_file E f H W m s = Inr result \<longleftrightarrow>
           (\<exists>contents decoded resized.
               read_file E f = Inr contents
             \<and> (if endswith f ''.png'' then decode_png E contents 3 = Inr decoded
                else if endswith f ''.gif''
                  then (\<exists>g. decode_gif E contents = Inr g \<and> decoded = tf_squeeze g)
                else if endswith f ''.bmp'' then decode_bmp E contents = Inr decoded
                else decode_jpeg E contents 3 = Inr decoded)
             \<and> resize_bilinear E (tf_expand_dims0 (tf_cast_float decoded)) H W = Inr resized
             \<and> shape result = shape resized
             \<and> elems result = map (\<lambda>x. (x - of_int m) / of_int s) (elems resized)))
       \<and> (read_tensor_from_image_file E f H W m s = Inr result \<longrightarrow>
            (\<exists>ch. shape result = [1, nat H, nat W, ch])
          \<and> (select_decoder f \<noteq> BMP \<longrightarrow> shape result = [1, nat H, nat W, 3]))"
proof -
  let ?P = "\<lambda>contents decoded.
      (if endswith f ''.png'' then decode_png E contents 3 = Inr decoded
       else if endswith f ''.gif''
         then (\<exists>g. decode_gif E contents = Inr g \<and> decoded = tf_squeeze g)
       else if endswith f ''.bmp'' then decode_bmp E contents = Inr decoded
       else decode_jpeg E contents 3 = Inr decoded)"
  have reader: "image_reader E (select_decoder f) contents = Inr decoded \<longleftrightarrow> ?P contents decoded"
    for contents decoded
    by (auto simp: image_reader_def select_decoder_def split: sum.splits)
  have steps: "read_tensor_from_image_file E f H W m s = Inr result \<longleftrightarrow>
      (\<exists>contents decoded resized.
          read_file E f = Inr contents
        \<and> image_reader E (select_decoder f) contents = Inr decoded
        \<and> resize_bilinear E (tf_expand_dims0 (tf_cast_float decoded)) H W = Inr resized
        \<and> result = normalized m s resized)"
    by (auto simp: read_tensor_from_image_file_def split: sum.splits)
  have norm: "result = normalized m s resized \<longleftrightarrow>
      shape result = shape resized
    \<and> elems result = map (\<lambda>x. (x - of_int m) / of_int s) (elems resized)" for resized
    by (auto simp: normalized_def)
  have first: "read_tensor_from_image_file E f H W m s = Inr result \<longleftrightarrow>
      (\<exists>contents decoded resized.
          read_file E f = Inr contents
        \<and> ?P contents decoded
        \<and> resize_bilinear E (tf_expand_dims0 (tf_cast_float decoded)) H W = Inr resized
        \<and> shape result = shape resized
        \<and> elems result = map (\<lambda>x. (x - of_int m) / of_int s) (elems resized))"
    unfolding steps reader norm ..
  have second: "(\<exists>ch. shape result = [1, nat H, nat W, ch])
          \<and> (select_decoder f \<noteq> BMP \<longrightarrow> shape result = [1, nat H, nat W, 3])"
    if ok: "read_tensor_from_image_file E f H W m s = Inr result"
  proof -
    from ok first obtain contents decoded resized
      where dec: "?P contents decoded"
        and rs: "resize_bilinear E (tf_expand_dims0 (tf_cast_float decoded)) H W = Inr resized"
        and sh: "shape result = shape resized"
      by blast
    from resize [OF rs] obtain b h0 w0 ch
      where a: "shape (tf_expand_dims0 (tf_cast_float decoded) :: 'a tensor) = [b, h0, w0, ch]"
        and r: "shape resized = [b, nat H, nat W, ch]"
      by blast
    from a have d: "b = 1" "shape decoded = [h0, w0, ch]"
      by (simp_all add: tf_expand_dims0_def tf_cast_float_def)
    have "ch = 3" if nb: "select_decoder f \<noteq> BMP"
    proof (cases "endswith f ''.png''")
      case True
      then show ?thesis using dec d png [of contents decoded] by auto
    next
      case False
      note not_png = this
      show ?thesis
      proof (cases "endswith f ''.gif''")
        case True
        then obtain g where g: "decode_gif E contents = Inr g" "decoded = tf_squeeze g"
          using dec not_png by auto
        from gif [OF g(1)] obtain n h1 w1 where "shape g = [n, h1, w1, 3]" by blast
        then have "filter (\<lambda>d. d \<noteq> 1) [n, h1, w1, 3] = [h0, w0, ch]"
          using d(2) g(2) by (simp add: tf_squeeze_def)
        then show ?thesis by (rule squeezed_channels)
      next
        case False
        then have "\<not> endswith f ''.bmp''"
          using nb not_png by (auto simp: select_decoder_def split: if_splits)
        then show ?thesis using dec d not_png False jpeg [of contents decoded] by auto
      qed
    qed
    then show ?thesis using sh r d by simp
  qed
  show ?thesis using first second by blast
qed

lemma toy_resize_shape:
  "toy_resize t h w = Inr r \<Longrightarrow>
     \<exists>b h0 w0 ch. shape t = [b, h0, w0, ch] \<and> shape r = [b, nat h, nat w, ch]"
  by (auto simp: toy_resize_def split: list.splits if_splits)

text \<open>
  C3. The BMP decoder is the only one called without a channel count, so a bitmap that
  decodes to four channels keeps them all: the tensor returned for the example bitmap has
  the shape \<open>(1, 2, 2, 4)\<close>, where the JPEG picture beside it, decoded with
  \<^verbatim>\<open>channels=3\<close>, gives \<open>(1, 2, 2, 3)\<close>.
\<close>

theorem bmp_keeps_every_channel:
  "select_decoder ''/img/alpha.bmp'' = BMP
   \<and> map_sum id shape
       (read_tensor_from_image_file (toy_env toy_fs toy_labels) ''/img/alpha.bmp'' 2 2 0 255)
       = Inr [1, 2, 2, 4]
   \<and> select_decoder ''/img/cat.jpg'' = JPEG
   \<and> map_sum id shape
       (read_tensor_from_image_file (toy_env toy_fs toy_labels) ''/img/cat.jpg'' 2 2 0 255)
       = Inr [1, 2, 2, 3]"
  by (simp add: read_tensor_from_image_file_def toy_env_def toy_fs_def
        strip_slashes_def select_decoder_def endswith_def suffix_to_prefix image_reader_def
        toy_decode_def tf_expand_dims0_def tf_cast_float_def toy_resize_def normalized_def)

section \<open>Command line\<close>

lemma py_int_zero: "py_int ''0'' = Inr 0"
  by (simp add: py_int_def strip_def lstrip_def rstrip_def isspace_def digits_value_def is_digit_def)

lemma py_if_field: "g (py_if b f c) = (if b then g (f c) else g c)"
  by (simp add: py_if_def)









lemma configure_folder_name:
  "folder_name (configure a)
     = (if truthy_bool (arg_top_k_graph a) then top_k_folder
        else if truthy_bool (arg_vote a) then vote_folder else [])"
  by (simp add: configure_def Let_def defaults_def py_if_field [of folder_name])

lemma configure_file_name:
  "file_name (configure a)
     = (if truthy_str (arg_image a)
        then (if truthy_bool (arg_vote a) then vote_folder @ ''/'' @ the (arg_image a)
              else the (arg_image a))
        else file_name defaults)"
  by (simp add: configure_def Let_def defaults_def py_if_field [of file_name]
        py_if_field [of folder_name])



section \<open>Searching a directory\<close>

lemma path_join_prefix: "CHR ''/'' \<notin> set b \<Longrightarrow> path_join d b = dir_prefix d @ b"
  by (cases b) (auto simp: path_join_def dir_prefix_def)

lemma pattern_dir_append: "CHR ''/'' \<notin> set b \<Longrightarrow> pattern_dir (p @ b) = pattern_dir p"
proof -
  assume "CHR ''/'' \<notin> set b"
  then have "dropWhile (\<lambda>c. c \<noteq> CHR ''/'') (rev b @ rev p) = dropWhile (\<lambda>c. c \<noteq> CHR ''/'') (rev p)"
    by (intro dropWhile_append2) auto
  then show ?thesis by (simp add: pattern_dir_def)
qed

lemma pattern_base_append:
  "CHR ''/'' \<notin> set b \<Longrightarrow> p = [] \<or> last p = CHR ''/'' \<Longrightarrow> pattern_base (p @ b) = b"
proof -
  assume b: "CHR ''/'' \<notin> set b" and p: "p = [] \<or> last p = CHR ''/''"
  have "takeWhile (\<lambda>c. c \<noteq> CHR ''/'') (rev b @ rev p) = rev b"
  proof (cases "p = []")
    case True
    then show ?thesis using b by auto
  next
    case False
    then have "hd (rev p) = CHR ''/''" using p by (simp add: hd_rev)
    moreover have "rev p \<noteq> []" using False by simp
    ultimately have "takeWhile (\<lambda>c. c \<noteq> CHR ''/'') (rev p) = []"
      by (cases "rev p") auto
    moreover have "takeWhile (\<lambda>c. c \<noteq> CHR ''/'') (rev b @ rev p)
        = rev b @ takeWhile (\<lambda>c. c \<noteq> CHR ''/'') (rev p)"
      using b by (intro takeWhile_append2) auto
    ultimately show ?thesis by simp
  qed
  then show ?thesis by (simp add: pattern_base_def)
qed

lemma pattern_dir_prefix: "pattern_dir (dir_prefix d) = dir_prefix d"
proof (cases "dir_prefix d = []")
  case True
  then show ?thesis by (simp add: pattern_dir_def)
next
  case False
  then have "last (dir_prefix d) = CHR ''/''" by (auto simp: dir_prefix_def)
  then have "hd (rev (dir_prefix d)) = CHR ''/''" using False by (simp add: hd_rev)
  then have "dropWhile (\<lambda>c. c \<noteq> CHR ''/'') (rev (dir_prefix d)) = rev (dir_prefix d)"
    using False by (cases "rev (dir_prefix d)") auto
  then show ?thesis by (simp add: pattern_dir_def)
qed

lemma dir_prefix_closed: "dir_prefix d = [] \<or> last (dir_prefix d) = CHR ''/''"
  by (auto simp: dir_prefix_def)

lemma strip_slashes_prefix: "strip_slashes (dir_prefix d) = strip_slashes d"
  by (auto simp: strip_slashes_def dir_prefix_def)

text \<open>What the model of \<^verbatim>\<open>gfile.Glob\<close> gives for a pattern the script builds.\<close>

lemma glob_joined:
  assumes "CHR ''/'' \<notin> set pat"
  shows "gfile_Glob F (path_join d pat) =
     (case F (strip_slashes d) of
        Some (Dir names) \<Rightarrow> map (\<lambda>n. dir_prefix d @ n) (filter (glob_match pat) names)
      | _ \<Rightarrow> [])"
proof -
  have "pattern_dir (path_join d pat) = dir_prefix d"
    using assms by (simp add: path_join_prefix pattern_dir_append pattern_dir_prefix)
  moreover have "pattern_base (path_join d pat) = pat"
    using assms dir_prefix_closed [of d] by (simp add: path_join_prefix pattern_base_append)
  ultimately show ?thesis
    by (simp add: gfile_Glob_def strip_slashes_prefix split: option.splits node.splits)
qed

lemma glob_match_extension: "glob_match (''*.'' @ e) = (\<lambda>n. endswith n (''.'' @ e))"
  by (rule ext) (simp add: glob_match_def endswith_def)

lemma glob_extensions_files:
  "glob_extensions F d fl = fl @ jpeg_files F d"
proof -
  have g: "gfile_Glob F (path_join d (''*.'' @ e)) =
     (case F (strip_slashes d) of
        Some (Dir names) \<Rightarrow> map (\<lambda>n. dir_prefix d @ n) (filter (\<lambda>n. endswith n (''.'' @ e)) names)
      | _ \<Rightarrow> [])" if "e \<in> set extensions" for e
  proof -
    have "CHR ''/'' \<notin> set (''*.'' @ e)" using that by (auto simp: extensions_def)
    from glob_joined [OF this] show ?thesis
      by (simp only: glob_match_extension)
  qed
  have "gfile_Glob F (path_join d ''*.jpg'') =
     (case F (strip_slashes d) of
        Some (Dir names) \<Rightarrow> map (\<lambda>n. dir_prefix d @ n) (filter (\<lambda>n. endswith n ''.jpg'') names)
      | _ \<Rightarrow> [])"
    using g [of "''jpg''"] by (simp add: extensions_def cong: option.case_cong node.case_cong)
  moreover have "gfile_Glob F (path_join d ''*.jpeg'') =
     (case F (strip_slashes d) of
        Some (Dir names) \<Rightarrow> map (\<lambda>n. dir_prefix d @ n) (filter (\<lambda>n. endswith n ''.jpeg'') names)
      | _ \<Rightarrow> [])"
    using g [of "''jpeg''"] by (simp add: extensions_def cong: option.case_cong node.case_cong)
  moreover have "gfile_Glob F (path_join d ''*.JPG'') =
     (case F (strip_slashes d) of
        Some (Dir names) \<Rightarrow> map (\<lambda>n. dir_prefix d @ n) (filter (\<lambda>n. endswith n ''.JPG'') names)
      | _ \<Rightarrow> [])"
    using g [of "''JPG''"] by (simp add: extensions_def cong: option.case_cong node.case_cong)
  moreover have "gfile_Glob F (path_join d ''*.JPEG'') =
     (case F (strip_slashes d) of
        Some (Dir names) \<Rightarrow> map (\<lambda>n. dir_prefix d @ n) (filter (\<lambda>n. endswith n ''.JPEG'') names)
      | _ \<Rightarrow> [])"
    using g [of "''JPEG''"] by (simp add: extensions_def cong: option.case_cong node.case_cong)
  ultimately show ?thesis
    unfolding glob_extensions_def
    by (simp add: extensions_def jpeg_files_def split: option.splits node.splits)
qed

lemma glob_extensions_missing:
  "\<not> gfile_Exists F d \<Longrightarrow> glob_extensions F d fl = fl"
  by (simp add: glob_extensions_files jpeg_files_def gfile_Exists_def)

section \<open>Collecting the images of the numbered folders\<close>

lemma for_each_append:
  "for_each body s (xs @ ys) =
     (case for_each body s xs of Inl e \<Rightarrow> Inl e | Inr s' \<Rightarrow> for_each body s' ys)"
  by (induction xs arbitrary: s) (auto split: sum.splits)

lemma evaluate_image_ok:
  assumes "classify E c run f = Inr row" "length row = 99"
  shows "evaluate_image E c run truth st f =
     Inr (st\<lparr>ground_truth := ground_truth st @ [truth],
              evaluated_images := evaluated_images st + 1,
              final_results := final_results st @ [row]\<rparr>)"
  using assms by (simp add: evaluate_image_def np_append_def Let_def)

lemma evaluate_image_bad:
  assumes "classify E c run f = Inr row" "length row \<noteq> 99"
  shows "evaluate_image E c run truth st f = Inl ValueError"
  using assms by (simp add: evaluate_image_def np_append_def Let_def)

lemma evaluate_images_ok:
  assumes "\<forall>f\<in>set fl. \<exists>row. classify E c run f = Inr row \<and> length row = 99"
  shows "for_each (evaluate_image E c run truth) st fl =
     Inr (st\<lparr>ground_truth := ground_truth st @ map (\<lambda>f. truth) fl,
              evaluated_images := evaluated_images st + length fl,
              final_results := final_results st @ map (\<lambda>f. projr (classify E c run f)) fl\<rparr>)"
  using assms
proof (induction fl arbitrary: st)
  case Nil
  then show ?case by simp
next
  case (Cons f fl)
  then obtain row where row: "classify E c run f = Inr row" "length row = 99" by auto
  show ?case using Cons row by (simp add: evaluate_image_ok)
qed

lemma evaluate_folder_files:
  "evaluate_folder E c run st i =
     (let dir = folder_name c @ ''/'' @ str_nat i;
          st1 = (if \<not> gfile_Exists (fs E) dir
                 then st\<lparr>error_log := error_log st @ [not_found_message dir]\<rparr> else st);
          st2 = st1\<lparr>file_list := file_list st @ jpeg_files (fs E) dir\<rparr>
      in case for_each (evaluate_image E c run (int i)) st2 (file_list st2) of
           Inl e \<Rightarrow> Inl e
         | Inr st3 \<Rightarrow> Inr (st3\<lparr>file_list := []\<rparr>))"
  by (simp add: evaluate_folder_def Let_def glob_extensions_files)

lemma file_list_reset: "file_list st = [] \<Longrightarrow> st\<lparr>file_list := []\<rparr> = st"
  by (cases st) simp

lemma evaluate_folder_empty:
  assumes "jpeg_files (fs E) (folder_name c @ ''/'' @ str_nat i) = []" "file_list st = []"
  shows "evaluate_folder E c run st i =
     Inr (st\<lparr>error_log :=
               (if \<not> gfile_Exists (fs E) (folder_name c @ ''/'' @ str_nat i)
                then error_log st @ [not_found_message (folder_name c @ ''/'' @ str_nat i)]
                else error_log st)\<rparr>)"
proof -
  let ?dir = "folder_name c @ ''/'' @ str_nat i"
  let ?st1 = "if \<not> gfile_Exists (fs E) ?dir
              then st\<lparr>error_log := error_log st @ [not_found_message ?dir]\<rparr> else st"
  have f: "file_list ?st1 = []" using assms(2) by simp
  have "evaluate_folder E c run st i = Inr (?st1\<lparr>file_list := []\<rparr>)"
    using assms by (simp add: evaluate_folder_files Let_def)
  also have "?st1\<lparr>file_list := []\<rparr> = ?st1" using f by (rule file_list_reset)
  finally show ?thesis by simp
qed

lemma evaluate_folder_missing:
  assumes "\<not> gfile_Exists (fs E) (folder_name c @ ''/'' @ str_nat i)" "file_list st = []"
  shows "evaluate_folder E c run st i =
     Inr (st\<lparr>error_log := error_log st @ [not_found_message (folder_name c @ ''/'' @ str_nat i)]\<rparr>)"
proof -
  have "jpeg_files (fs E) (folder_name c @ ''/'' @ str_nat i) = []"
    using assms(1) by (simp add: jpeg_files_def gfile_Exists_def)
  from evaluate_folder_empty [OF this assms(2)] show ?thesis using assms(1) by simp
qed

lemma evaluate_folders_empty:
  assumes "\<forall>i\<in>set dirs. jpeg_files (fs E) (folder_name c @ ''/'' @ str_nat i) = []"
      and "file_list st = []"
  shows "\<exists>lg. for_each (evaluate_folder E c run) st dirs = Inr (st\<lparr>error_log := lg\<rparr>)"
  using assms
proof (induction dirs arbitrary: st)
  case Nil
  have "st = st\<lparr>error_log := error_log st\<rparr>" by simp
  then show ?case by (metis for_each.simps(1))
next
  case (Cons i dirs)
  from Cons.prems obtain lg where
    s: "evaluate_folder E c run st i = Inr (st\<lparr>error_log := lg\<rparr>)"
    using evaluate_folder_empty [of E c i st run] by simp
  have "\<exists>lg'. for_each (evaluate_folder E c run) (st\<lparr>error_log := lg\<rparr>) dirs
           = Inr (st\<lparr>error_log := lg, error_log := lg'\<rparr>)"
    using Cons.IH [of "st\<lparr>error_log := lg\<rparr>"] Cons.prems by simp
  then show ?case using s by simp
qed


lemma topk_init_update: "topk_init\<lparr>error_log := lg\<rparr>
   = \<lparr>file_list = [], evaluated_images = 0, final_results = [], ground_truth = [],
      error_log = lg\<rparr>"
  by (simp add: topk_init_def)

text \<open>
  C5 (amended). When a numbered folder of top-K mode does not exist, the pass of the loop
  for it appends the message that the image directory was not found to the error log, finds
  no file, changes nothing else and ends normally, so the loop goes on with the next folder.
  Voting mode tests and searches the path in \<^verbatim>\<open>file_name\<close>, not the voting folder: when
  nothing exists at that path it logs the same message, iterates over no file, prints
  nothing and ends normally; and a voting run that ends normally has logged the message
  exactly when nothing exists at that path, whatever the voting folder is. That a search
  below a missing directory finds nothing and raises nothing is how the spec describes
  \<^verbatim>\<open>gfile.Glob\<close>.
\<close>

theorem missing_directory_is_logged_and_skipped:
  "(\<not> gfile_Exists (fs E) (folder_name c @ ''/'' @ str_nat i) \<longrightarrow> file_list st = [] \<longrightarrow>
      evaluate_folder E c run st i =
        Inr (st\<lparr>error_log :=
                  error_log st @ [not_found_message (folder_name c @ ''/'' @ str_nat i)]\<rparr>))
   \<and> (\<not> gfile_Exists (fs E) (file_name c) \<longrightarrow>
        vote_mode E c run =
          Inr \<lparr>vote_log = [not_found_message (file_name c)], vote_files = [],
               vote_final =
                 \<lparr>vote_final_results = [], vote_results = [], vote_printed = []\<rparr>\<rparr>)
   \<and> (\<forall>r. vote_mode E c run = Inr r \<longrightarrow>
        vote_log r = (if gfile_Exists (fs E) (file_name c) then []
                      else [not_found_message (file_name c)]))"
proof (intro conjI impI allI)
  fix r
  assume "vote_mode E c run = Inr r"
  then show "vote_log r = (if gfile_Exists (fs E) (file_name c) then []
                      else [not_found_message (file_name c)])"
    by (auto simp: vote_mode_def Let_def split: sum.splits)
next
  assume "\<not> gfile_Exists (fs E) (folder_name c @ ''/'' @ str_nat i)" "file_list st = []"
  then show "evaluate_folder E c run st i =
        Inr (st\<lparr>error_log :=
                  error_log st @ [not_found_message (folder_name c @ ''/'' @ str_nat i)]\<rparr>)"
    by (rule evaluate_folder_missing)
next
  assume "\<not> gfile_Exists (fs E) (file_name c)"
  then show "vote_mode E c run =
          Inr \<lparr>vote_log = [not_found_message (file_name c)], vote_files = [],
               vote_final =
                 \<lparr>vote_final_results = [], vote_results = [], vote_printed = []\<rparr>\<rparr>"
    by (simp add: vote_mode_def glob_extensions_missing)
qed

theorem missing_directory_is_logged_and_skipped_witness:
  "evaluate_folder (toy_env empty_fs toy_labels) toy_config toy_run topk_init 5 =
     Inr \<lparr>file_list = [], evaluated_images = 0, final_results = [], ground_truth = [],
          error_log = [not_found_message (top_k_folder @ ''/5'')]\<rparr>
   \<and> vote_mode (toy_env empty_fs toy_labels) toy_vote_config toy_run =
       Inr \<lparr>vote_log = [not_found_message (vote_folder @ ''/set1'')], vote_files = [],
            vote_final = \<lparr>vote_final_results = [], vote_results = [], vote_printed = []\<rparr>\<rparr>"
proof -
  let ?E = "toy_env empty_fs toy_labels"
  have e: "\<not> gfile_Exists (fs ?E) d" for d
    by (simp add: gfile_Exists_def toy_env_def empty_fs_def)
  have f: "file_list (topk_init :: rat topk_state) = []" by (simp add: topk_init_def)
  have five: "str_nat 5 = ''5''" by code_simp
  have c: "folder_name toy_config = top_k_folder" "file_name toy_vote_config = vote_folder @ ''/set1''"
    by (simp_all add: toy_config_def toy_vote_config_def)
  let ?st = "topk_init :: rat topk_state"
  have 1: "evaluate_folder ?E toy_config toy_run ?st 5 =
        Inr (?st\<lparr>error_log :=
               error_log ?st @ [not_found_message (folder_name toy_config @ ''/'' @ str_nat 5)]\<rparr>)"
    by (rule conjunct1 [OF missing_directory_is_logged_and_skipped, rule_format, OF e f])
  have 2: "vote_mode ?E toy_vote_config toy_run =
          Inr \<lparr>vote_log = [not_found_message (file_name toy_vote_config)], vote_files = [],
               vote_final =
                 \<lparr>vote_final_results = [], vote_results = [], vote_printed = []\<rparr>\<rparr>"
    by (rule conjunct1 [OF conjunct2 [OF missing_directory_is_logged_and_skipped], rule_format,
          OF e])
  show ?thesis using 1 2 by (simp add: five c topk_init_def)
qed

text \<open>
  The claim as it was stated, that a missing voting folder is logged, fails for the command
  line \<^verbatim>\<open>--vote True\<close>: the folder is the voting folder, which does not exist, the path tested
  is the default image, which does, and the run ends with an empty log.
\<close>

theorem vote_mode_never_tests_voting_folder_counterexample:
  "parse_args vote_cmdline = Inr vote_args
   \<and> select_mode vote_args = VoteMode
   \<and> folder_name (configure vote_args) = vote_folder
   \<and> \<not> gfile_Exists default_image_fs vote_folder
   \<and> main (toy_env default_image_fs toy_labels) vote_cmdline =
       Inr (Vote \<lparr>vote_log = [], vote_files = [],
                  vote_final =
                    \<lparr>vote_final_results = [], vote_results = [], vote_printed = []\<rparr>\<rparr>)"
proof -
  let ?E = "toy_env default_image_fs toy_labels"
  have p: "parse_args vote_cmdline = Inr vote_args"
    by (simp add: parse_args_def vote_cmdline_def vote_args_def int_flag_def py_bool_def)
  have m: "select_mode vote_args = VoteMode"
    by (simp add: select_mode_def vote_args_def truthy_bool_def)
  have d: "folder_name (configure vote_args) = vote_folder"
    by (simp add: configure_folder_name vote_args_def truthy_bool_def)
  have f: "file_name (configure vote_args) = file_name defaults"
    by (simp add: configure_file_name vote_args_def truthy_str_def)
  have s: "strip_slashes (file_name defaults) = file_name defaults"
    by (simp add: strip_slashes_def defaults_def)
  have e: "gfile_Exists (fs ?E) (file_name defaults)"
    by (simp add: gfile_Exists_def s toy_env_def default_image_fs_def)
  have n: "\<not> gfile_Exists default_image_fs vote_folder"
    by (simp add: gfile_Exists_def default_image_fs_def strip_slashes_def vote_folder_def
          defaults_def)
  have "fs ?E (strip_slashes (file_name defaults)) = Some File"
    by (simp add: s toy_env_def default_image_fs_def)
  then have j: "jpeg_files (fs ?E) (file_name defaults) = []"
    by (simp add: jpeg_files_def)
  have v: "vote_mode ?E (configure vote_args) toy_run =
       Inr \<lparr>vote_log = [], vote_files = [],
            vote_final = \<lparr>vote_final_results = [], vote_results = [], vote_printed = []\<rparr>\<rparr>"
    using e j by (simp add: vote_mode_def glob_extensions_files f Let_def)
  have g: "load_graph ?E mf i out = Inr toy_run" for mf i out
    by (simp add: toy_env_def)
  have "main ?E vote_cmdline =
       Inr (Vote \<lparr>vote_log = [], vote_files = [],
                  vote_final =
                    \<lparr>vote_final_results = [], vote_results = [], vote_printed = []\<rparr>\<rparr>)"
    using p m v g by (simp add: main_def Let_def)
  then show ?thesis using p m d n by simp
qed



section \<open>Top-K evaluation without images\<close>

lemma report_k_no_images:
  assumes "load_labels E (label_file c) = Inr labels"
      and "evaluated_images st = 0" "final_results st = []"
  shows "report_k E c st out k = Inl ZeroDivisionError"
  using assms by (simp add: report_k_def accuracy_def)

lemma toy_model_tag: "model_tag (model_file toy_config) = Inr ''toy''"
  by (simp add: toy_config_def model_tag_def index_def)

text \<open>
  C6. In top-K evaluation mode, when the summary directory could be named and the label
  file can be read, and none of the 99 numbered folders holds a file with one of the four
  extensions, the folders are gone through without an exception, \<open>evaluated_images\<close>
  stays 0, and the accuracy for \<open>K = 1\<close> divides by it: the run ends with
  \<^verbatim>\<open>ZeroDivisionError\<close>.
\<close>

theorem top_k_without_images_divides_by_zero:
  assumes "model_tag (model_file c) = Inr tag"
      and "load_labels E (label_file c) = Inr labels"
      and "\<forall>i<99. jpeg_files (fs E) (folder_name c @ ''/'' @ str_nat i) = []"
  shows "(\<exists>st. for_each (evaluate_folder E c run) topk_init [0..<99] = Inr st
              \<and> evaluated_images st = 0)
       \<and> top_k_mode E a c run = Inl ZeroDivisionError"
proof -
  have "\<forall>i\<in>set [0..<99]. jpeg_files (fs E) (folder_name c @ ''/'' @ str_nat i) = []"
    using assms(3) by simp
  moreover have "file_list (topk_init :: 'a topk_state) = []" by (simp add: topk_init_def)
  ultimately obtain lg where
    st: "for_each (evaluate_folder E c run) topk_init [0..<99] = Inr (topk_init\<lparr>error_log := lg\<rparr>)"
    using evaluate_folders_empty [of "[0..<99]" E c topk_init run] by blast
  let ?st = "topk_init\<lparr>error_log := lg\<rparr> :: 'a topk_state"
  have z: "evaluated_images ?st = 0" "final_results ?st = []" by (simp_all add: topk_init_def)
  have "[1..<100] = 1 # [2..<100]" by (simp add: upt_conv_Cons)
  then have "for_each (report_k E c ?st) \<lparr>summaries = [], printed = []\<rparr> [1..<100]
               = Inl ZeroDivisionError"
    using report_k_no_images [OF assms(2) z] by simp
  then have "top_k_mode E a c run = Inl ZeroDivisionError"
    using assms(1) st by (simp add: top_k_mode_def)
  then show ?thesis using st z(1) by blast
qed

theorem top_k_without_images_divides_by_zero_witness:
  "top_k_mode (toy_env empty_fs toy_labels) toy_args toy_config toy_run = Inl ZeroDivisionError"
proof -
  let ?E = "toy_env empty_fs toy_labels"
  have l: "load_labels ?E (label_file toy_config) = Inr (map str_nat [0..<99])"
    using load_labels_number_lines [of empty_fs "[0..<99]"]
    by (simp add: toy_config_def toy_labels_def)
  have n: "\<forall>i<99. jpeg_files (fs ?E) (folder_name toy_config @ ''/'' @ str_nat i) = []"
    by (simp add: jpeg_files_def toy_env_def empty_fs_def)
  from top_k_without_images_divides_by_zero [OF toy_model_tag l n]
  show ?thesis by blast
qed

section \<open>Score vectors of the wrong length\<close>

lemma image_reader_read_text: "image_reader (E\<lparr>read_text := rt\<rparr>) d b = image_reader E d b"
  by (cases d) (simp_all add: image_reader_def)

lemma classify_read_text [simp]: "classify (E\<lparr>read_text := rt\<rparr>) c run f = classify E c run f"
  by (simp add: classify_def read_tensor_from_image_file_def image_reader_read_text
        cong: sum.case_cong)

lemma evaluate_folder_bad_rows:
  assumes "\<forall>f\<in>set (jpeg_files (fs E) (folder_name c @ ''/'' @ str_nat i)).
             \<exists>row. classify E c run f = Inr row \<and> length row \<noteq> 99"
      and "jpeg_files (fs E) (folder_name c @ ''/'' @ str_nat i) \<noteq> []"
      and "file_list st = []"
  shows "evaluate_folder E c run st i = Inl ValueError"
proof -
  obtain f fl where fl: "jpeg_files (fs E) (folder_name c @ ''/'' @ str_nat i) = f # fl"
    using assms(2) by (cases "jpeg_files (fs E) (folder_name c @ ''/'' @ str_nat i)") auto
  then obtain row where "classify E c run f = Inr row" "length row \<noteq> 99"
    using assms(1) by auto
  then have "evaluate_image E c run (int i) s f = Inl ValueError" for s
    by (rule evaluate_image_bad)
  then show ?thesis using fl assms(3) by (simp add: evaluate_folder_files Let_def)
qed

lemma evaluate_folders_bad_rows:
  assumes "\<forall>i\<in>set dirs. \<forall>f\<in>set (jpeg_files (fs E) (folder_name c @ ''/'' @ str_nat i)).
             \<exists>row. classify E c run f = Inr row \<and> length row \<noteq> 99"
      and "\<exists>i\<in>set dirs. jpeg_files (fs E) (folder_name c @ ''/'' @ str_nat i) \<noteq> []"
      and "file_list st = []"
  shows "for_each (evaluate_folder E c run) st dirs = Inl ValueError"
  using assms
proof (induction dirs arbitrary: st)
  case Nil
  then show ?case by simp
next
  case (Cons i dirs)
  show ?case
  proof (cases "jpeg_files (fs E) (folder_name c @ ''/'' @ str_nat i) = []")
    case True
    then have s: "evaluate_folder E c run st i = Inr (st\<lparr>error_log :=
               (if \<not> gfile_Exists (fs E) (folder_name c @ ''/'' @ str_nat i)
                then error_log st @ [not_found_message (folder_name c @ ''/'' @ str_nat i)]
                else error_log st)\<rparr>)"
      using Cons.prems(3) by (rule evaluate_folder_empty)
    have "\<exists>i\<in>set dirs. jpeg_files (fs E) (folder_name c @ ''/'' @ str_nat i) \<noteq> []"
      using Cons.prems(2) True by auto
    then show ?thesis using s Cons.IH Cons.prems(1,3) by simp
  next
    case False
    then have "evaluate_folder E c run st i = Inl ValueError"
      using Cons.prems(1,3) evaluate_folder_bad_rows [of E c i run st] by simp
    then show ?thesis by simp
  qed
qed

text \<open>
  C9. Appending an inference result to the accumulated array succeeds exactly when the
  result has 99 scores, and raises \<^verbatim>\<open>ValueError\<close> otherwise. So in voting mode, when the
  directory searched holds an image and the graph gives each image a score vector whose
  length is not 99, the run ends with \<^verbatim>\<open>ValueError\<close>; and in top-K evaluation mode, when the
  summary directory could be named, some numbered folder holds an image and the graph gives
  each image such a vector, the run ends with \<^verbatim>\<open>ValueError\<close>. Both hold whatever the label
  file is, even when it cannot be read: the append comes before the labels are loaded.
\<close>

theorem append_needs_99_scores:
  "(length row \<noteq> 99 \<longrightarrow> np_append fr row = Inl ValueError)
   \<and> (length row = 99 \<longrightarrow> np_append fr row = Inr (fr @ [row]))
   \<and> (jpeg_files (fs E) (file_name c) \<noteq> [] \<longrightarrow>
        (\<forall>f\<in>set (jpeg_files (fs E) (file_name c)).
           \<exists>row. classify E c run f = Inr row \<and> length row \<noteq> 99) \<longrightarrow>
        vote_mode (E\<lparr>read_text := rt\<rparr>) c run = Inl ValueError)
   \<and> (model_tag (model_file c) = Inr tag \<longrightarrow>
        (\<exists>i<99. jpeg_files (fs E) (folder_name c @ ''/'' @ str_nat i) \<noteq> []) \<longrightarrow>
        (\<forall>i<99. \<forall>f\<in>set (jpeg_files (fs E) (folder_name c @ ''/'' @ str_nat i)).
           \<exists>row. classify E c run f = Inr row \<and> length row \<noteq> 99) \<longrightarrow>
        top_k_mode (E\<lparr>read_text := rt\<rparr>) a c run = Inl ValueError)"
proof (intro conjI impI)
  assume "length row \<noteq> 99"
  then show "np_append fr row = Inl ValueError" by (simp add: np_append_def)
next
  assume "length row = 99"
  then show "np_append fr row = Inr (fr @ [row])" by (simp add: np_append_def)
next
  let ?E = "E\<lparr>read_text := rt\<rparr>"
  assume ne: "jpeg_files (fs E) (file_name c) \<noteq> []"
     and bad: "\<forall>f\<in>set (jpeg_files (fs E) (file_name c)).
                 \<exists>row. classify E c run f = Inr row \<and> length row \<noteq> 99"
  obtain f fl where fl: "jpeg_files (fs E) (file_name c) = f # fl"
    using ne by (cases "jpeg_files (fs E) (file_name c)") auto
  then obtain row' where "classify E c run f = Inr row'" "length row' \<noteq> 99"
    using bad by auto
  then have "vote_image ?E c run s f = Inl ValueError" for s
    by (simp add: vote_image_def np_append_def)
  then show "vote_mode ?E c run = Inl ValueError"
    using fl by (simp add: vote_mode_def glob_extensions_files)
next
  let ?E = "E\<lparr>read_text := rt\<rparr>"
  assume tag: "model_tag (model_file c) = Inr tag"
     and ne: "\<exists>i<99. jpeg_files (fs E) (folder_name c @ ''/'' @ str_nat i) \<noteq> []"
     and bad: "\<forall>i<99. \<forall>f\<in>set (jpeg_files (fs E) (folder_name c @ ''/'' @ str_nat i)).
                 \<exists>row. classify E c run f = Inr row \<and> length row \<noteq> 99"
  have "for_each (evaluate_folder ?E c run) topk_init [0..<99] = Inl ValueError"
    using ne bad by (intro evaluate_folders_bad_rows) (auto simp: topk_init_def)
  then show "top_k_mode ?E a c run = Inl ValueError"
    using tag by (simp add: top_k_mode_def)
qed


text \<open>The example file system, for the witness.\<close>

lemma strip_slashes_id: "p = [] \<or> last p \<noteq> CHR ''/'' \<Longrightarrow> strip_slashes p = p"
proof (cases "p = []")
  case True
  then show ?thesis by (simp add: strip_slashes_def)
next
  case False
  assume "p = [] \<or> last p \<noteq> CHR ''/''"
  then have "hd (rev p) \<noteq> CHR ''/''" using False by (simp add: hd_rev)
  then have "dropWhile (\<lambda>c. c = CHR ''/'') (rev p) = rev p"
    using False by (cases "rev p") auto
  then show ?thesis by (simp add: strip_slashes_def)
qed

lemma str_nat_last_digit: "is_digit (last (str_nat n))"
  using str_nat_digits [of n] str_nat_nonempty [of n] by (metis last_in_set list_all_iff)

lemma strip_slashes_numbered: "strip_slashes (d @ ''/'' @ str_nat i) = d @ ''/'' @ str_nat i"
proof -
  have "last (d @ ''/'' @ str_nat i) = last (str_nat i)"
    using str_nat_nonempty [of i] by simp
  then have "last (d @ ''/'' @ str_nat i) \<noteq> CHR ''/''"
    using str_nat_last_digit [of i] by (auto simp: is_digit_def)
  then show ?thesis by (intro strip_slashes_id) simp
qed

lemma str_nat_zero: "str_nat i = ''0'' \<longleftrightarrow> i = 0"
proof
  assume "str_nat i = ''0''"
  then have "py_int ''0'' = Inr (int i)" using py_int_str_nat [of i] by simp
  then show "i = 0" by (simp add: py_int_zero)
next
  assume "i = 0"
  then have "str_nat i = [digit_char 0]" by (simp add: str_nat_small)
  also have "\<dots> = ''0''" by code_simp
  finally show "str_nat i = ''0''" .
qed

lemma toy_fs_numbered:
  "toy_fs (top_k_folder @ ''/'' @ str_nat i)
     = (if i = 0 then Some (Dir [''a.jpg'', ''notes.txt'']) else None)"
proof -
  have s: "str_nat i \<noteq> ''0/a.jpg''"
    using str_nat_digits [of i] by (auto simp: is_digit_def)
  show ?thesis
    using s by (simp add: toy_fs_def top_k_folder_def vote_folder_def str_nat_zero)
qed

lemma toy_top_k_files_zero:
  "jpeg_files toy_fs (top_k_folder @ ''/0'') = [top_k_folder @ ''/0/a.jpg'']"
  by (simp add: jpeg_files_def strip_slashes_def toy_fs_def vote_folder_def top_k_folder_def
        dir_prefix_def endswith_def suffix_to_prefix)

lemma toy_top_k_files_at:
  "jpeg_files toy_fs (top_k_folder @ ''/'' @ str_nat i)
     = (if i = 0 then [top_k_folder @ ''/0/a.jpg''] else [])"
proof (cases "i = 0")
  case True
  have "str_nat i = ''0''" using True by (simp only: str_nat_zero)
  then have "jpeg_files toy_fs (top_k_folder @ ''/'' @ str_nat i)
               = jpeg_files toy_fs (top_k_folder @ ''/0'')"
    by simp
  also have "\<dots> = [top_k_folder @ ''/0/a.jpg'']" by (rule toy_top_k_files_zero)
  finally show ?thesis using True by simp
next
  case False
  then have "toy_fs (strip_slashes (top_k_folder @ ''/'' @ str_nat i)) = None"
    by (simp add: strip_slashes_numbered toy_fs_numbered del: append.simps)
  then show ?thesis using False by (simp add: jpeg_files_def)
qed

lemma toy_vote_files:
  "jpeg_files toy_fs (vote_folder @ ''/set1'')
     = [vote_folder @ ''/set1/a.jpg'', vote_folder @ ''/set1/bb.jpg'']"
  by (simp add: jpeg_files_def strip_slashes_def toy_fs_def vote_folder_def top_k_folder_def
        dir_prefix_def endswith_def suffix_to_prefix)

lemma toy_pixels:
  assumes "F (strip_slashes f) = Some File" "\<not> endswith f ''.png''" "\<not> endswith f ''.gif''"
    "\<not> endswith f ''.bmp''"
  shows "read_tensor_from_image_file (toy_env F T) f 2 2 0 255
           = Inr \<lparr>shape = [1, 2, 2, 3], elems = replicate 12 (of_nat (length f) / 255)\<rparr>"
  using assms
  by (simp add: read_tensor_from_image_file_def toy_env_def select_decoder_def image_reader_def
        toy_decode_def tf_expand_dims0_def tf_cast_float_def toy_resize_def normalized_def)


lemma toy_classify:
  assumes "F (strip_slashes f) = Some File" "\<not> endswith f ''.png''" "\<not> endswith f ''.gif''"
    "\<not> endswith f ''.bmp''"
    and "input_height c = 2" "input_width c = 2" "input_mean c = 0" "input_std c = 255"
  shows "classify (toy_env F T) c run f
           = run \<lparr>shape = [1, 2, 2, 3], elems = replicate 12 (of_nat (length f) / 255)\<rparr>"
  using toy_pixels [of F f T] assms by (simp add: classify_def)

lemma toy_config_size:
  "input_height toy_config = 2" "input_width toy_config = 2"
  "input_mean toy_config = 0" "input_std toy_config = 255"
  "input_height toy_vote_config = 2" "input_width toy_vote_config = 2"
  "input_mean toy_vote_config = 0" "input_std toy_vote_config = 255"
  by (simp_all add: toy_config_def toy_vote_config_def defaults_def)

lemma toy_files_exist:
  "toy_fs (strip_slashes (top_k_folder @ ''/0/a.jpg'')) = Some File"
  "toy_fs (strip_slashes (vote_folder @ ''/set1/a.jpg'')) = Some File"
  "toy_fs (strip_slashes (vote_folder @ ''/set1/bb.jpg'')) = Some File"
  by (simp_all add: strip_slashes_def toy_fs_def top_k_folder_def vote_folder_def)

lemma toy_files_jpeg:
  "\<not> endswith (top_k_folder @ ''/0/a.jpg'') ''.png''"
  "\<not> endswith (top_k_folder @ ''/0/a.jpg'') ''.gif''"
  "\<not> endswith (top_k_folder @ ''/0/a.jpg'') ''.bmp''"
  "\<not> endswith (vote_folder @ ''/set1/a.jpg'') ''.png''"
  "\<not> endswith (vote_folder @ ''/set1/a.jpg'') ''.gif''"
  "\<not> endswith (vote_folder @ ''/set1/a.jpg'') ''.bmp''"
  "\<not> endswith (vote_folder @ ''/set1/bb.jpg'') ''.png''"
  "\<not> endswith (vote_folder @ ''/set1/bb.jpg'') ''.gif''"
  "\<not> endswith (vote_folder @ ''/set1/bb.jpg'') ''.bmp''"
  by (simp_all add: endswith_def suffix_to_prefix top_k_folder_def vote_folder_def)

theorem append_needs_99_scores_witness:
  "vote_mode ((toy_env toy_fs toy_labels)\<lparr>read_text := (\<lambda>f. Inl NotFoundError)\<rparr>)
       toy_vote_config short_run = Inl ValueError
   \<and> top_k_mode ((toy_env toy_fs toy_labels)\<lparr>read_text := (\<lambda>f. Inl NotFoundError)\<rparr>)
       toy_args toy_config short_run = Inl ValueError"
proof -
  let ?E = "toy_env toy_fs toy_labels"
  have fs: "fs ?E = toy_fs" by (simp add: toy_env_def)
  have names: "file_name toy_vote_config = vote_folder @ ''/set1''"
    "folder_name toy_config = top_k_folder"
    by (simp_all add: toy_vote_config_def toy_config_def)
  have short:
    "classify ?E toy_config short_run (top_k_folder @ ''/0/a.jpg'') = Inr [1, 2, 3, 4, 5]"
    "classify ?E toy_vote_config short_run (vote_folder @ ''/set1/a.jpg'') = Inr [1, 2, 3, 4, 5]"
    "classify ?E toy_vote_config short_run (vote_folder @ ''/set1/bb.jpg'') = Inr [1, 2, 3, 4, 5]"
    by (simp_all add: toy_classify toy_files_exist toy_files_jpeg toy_config_size short_run_def)
  have v1: "jpeg_files (fs ?E) (file_name toy_vote_config) \<noteq> []"
    by (simp add: fs names toy_vote_files)
  have v2: "\<forall>f\<in>set (jpeg_files (fs ?E) (file_name toy_vote_config)).
              \<exists>row. classify ?E toy_vote_config short_run f = Inr row \<and> length row \<noteq> 99"
    by (simp add: fs names toy_vote_files short)
  have t1: "\<exists>i<99. jpeg_files (fs ?E) (folder_name toy_config @ ''/'' @ str_nat i) \<noteq> []"
    unfolding fs names toy_top_k_files_at by (intro exI [of _ 0]) simp
  have t2: "\<forall>i<99. \<forall>f\<in>set (jpeg_files (fs ?E) (folder_name toy_config @ ''/'' @ str_nat i)).
              \<exists>row. classify ?E toy_config short_run f = Inr row \<and> length row \<noteq> 99"
    unfolding fs names toy_top_k_files_at by (simp add: short)
  note th = append_needs_99_scores [where row = "[]" and fr = "[]" and E = ?E
      and run = short_run and rt = "\<lambda>f. Inl NotFoundError" and tag = "''toy''" and a = toy_args]
  have "vote_mode (?E\<lparr>read_text := (\<lambda>f. Inl NotFoundError)\<rparr>) toy_vote_config short_run
          = Inl ValueError"
    using th [where c = toy_vote_config] v1 v2 by blast
  moreover have "top_k_mode (?E\<lparr>read_text := (\<lambda>f. Inl NotFoundError)\<rparr>) toy_args toy_config
          short_run = Inl ValueError"
    using th [where c = toy_config] toy_model_tag t1 t2 by blast
  ultimately show ?thesis ..
qed

section \<open>Voting mode\<close>

lemma vec_add_length: "length (vec_add add xs ys) = min (length xs) (length ys)"
  by (simp add: vec_add_def)

lemma vec_add_nth:
  "j < length xs \<Longrightarrow> j < length ys \<Longrightarrow> vec_add add xs ys ! j = add (xs ! j) (ys ! j)"
  by (simp add: vec_add_def)

lemma foldl_vec_add_length:
  "\<forall>r\<in>set rows. length r = n \<Longrightarrow> length acc = n \<Longrightarrow> length (foldl (vec_add add) acc rows) = n"
  by (induction rows arbitrary: acc) (simp_all add: vec_add_length)

lemma foldl_vec_add_nth:
  "\<forall>r\<in>set rows. length r = n \<Longrightarrow> length acc = n \<Longrightarrow> j < n \<Longrightarrow>
     foldl (vec_add add) acc rows ! j = foldl add (acc ! j) (map (\<lambda>r. r ! j) rows)"
proof (induction rows arbitrary: acc)
  case Nil
  then show ?case by simp
next
  case (Cons r rows)
  have "foldl (vec_add add) (vec_add add acc r) rows ! j
          = foldl add (vec_add add acc r ! j) (map (\<lambda>r. r ! j) rows)"
    using Cons.prems by (intro Cons.IH) (simp_all add: vec_add_length)
  then show ?case using Cons.prems by (simp add: vec_add_nth)
qed

lemma np_sum_length: "\<forall>r\<in>set rows. length r = 99 \<Longrightarrow> length (np_sum add rows) = 99"
  by (simp add: np_sum_def foldl_vec_add_length)

text \<open>
  At every class, the array summed along its first axis holds the scores of the rows there,
  added to zero one after the other in the order of the rows.
\<close>

lemma np_sum_nth:
  assumes "\<forall>r\<in>set rows. length r = 99" "j < 99"
  shows "np_sum add rows ! j = foldl add 0 (map (\<lambda>r. r ! j) rows)"
  using foldl_vec_add_nth [of rows 99 "replicate 99 0" j add] assms by (simp add: np_sum_def)

lemma foldl_plus_sum_list:
  fixes a :: "'a::comm_monoid_add"
  shows "foldl (+) a xs = a + sum_list xs"
  by (induction xs arbitrary: a) (simp_all add: add.assoc)

lemma adds_exactly_plus: "adds_exactly (+) rows"
  by (simp add: adds_exactly_def list_all_iff foldl_plus_sum_list)

lemma np_sum_exact:
  assumes "adds_exactly add rows" "\<forall>r\<in>set rows. length r = 99" "j < 99"
  shows "np_sum add rows ! j = sum_list (map (\<lambda>r. r ! j) rows)"
  using assms by (simp add: np_sum_nth adds_exactly_def list_all_iff)

text \<open>Without rounding error the sum does not depend on the order of the rows.\<close>

lemma np_sum_permuted:
  fixes rows :: "('a::comm_monoid_add) list list"
  assumes "mset rows' = mset rows" "\<forall>r\<in>set rows. length r = 99"
      and "adds_exactly add rows" "adds_exactly add rows'"
  shows "np_sum add rows' = np_sum add rows"
proof (rule nth_equalityI)
  have r': "\<forall>r\<in>set rows'. length r = 99"
    using assms by (metis set_mset_mset)
  show "length (np_sum add rows') = length (np_sum add rows)"
    using r' assms(2) by (simp add: np_sum_length)
  fix j
  assume "j < length (np_sum add rows')"
  then have j: "j < 99" using r' by (simp add: np_sum_length)
  have "mset (map (\<lambda>r. r ! j) rows') = mset (map (\<lambda>r. r ! j) rows)"
    using assms(1) by (metis mset_map)
  then have "sum_list (map (\<lambda>r. r ! j) rows') = sum_list (map (\<lambda>r. r ! j) rows)"
    by (metis sum_mset_sum_list)
  then show "np_sum add rows' ! j = np_sum add rows ! j"
    using j r' assms(2-4) by (simp add: np_sum_exact)
qed

lemma rank_lines_length: "10 \<le> length results \<Longrightarrow> length (rank_lines labels results) = 10"
  by (simp add: rank_lines_def top_indices_length)

text \<open>
  The voting loop, when every file is classified into 99 scores and every score has a
  label: after each file the ten best of the sum so far are printed.
\<close>

lemma vote_loop:
  fixes E :: "('a::linordered_field) env"
  assumes "load_labels E (label_file c) = Inr labels" "99 \<le> length labels"
      and "map (classify E c run) fl = map Inr rows"
      and "\<forall>r\<in>set rows. length r = 99"
      and "\<forall>r\<in>set (vote_final_results st). length r = 99"
  shows "for_each (vote_image E c run) st fl =
     Inr \<lparr>vote_final_results = vote_final_results st @ rows,
          vote_results = (if fl = [] then vote_results st
                          else np_sum (add_scores E) (vote_final_results st @ rows)),
          vote_printed = vote_printed st @
            concat (map (\<lambda>n. rank_lines labels
                               (np_sum (add_scores E) (vote_final_results st @ take n rows)))
                      [1..<Suc (length rows)])\<rparr>"
  using assms(3-5)
proof (induction fl arbitrary: st rows)
  case Nil
  then show ?case by simp
next
  case (Cons f fl)
  let ?sum = "np_sum (add_scores E)"
  from Cons.prems(1) obtain row rest where rows: "rows = row # rest"
    and row: "classify E c run f = Inr row" and rest: "map (classify E c run) fl = map Inr rest"
    by (cases rows) auto
  let ?fr = "vote_final_results st @ [row]"
  have all: "\<forall>r\<in>set ?fr. length r = 99" using Cons.prems(2,3) rows by simp
  then have "length (?sum ?fr) \<le> length labels" using assms(2) by (simp add: np_sum_length)
  then have p: "print_top E c (?sum ?fr) (vote_printed st)
                  = Inr (vote_printed st @ rank_lines labels (?sum ?fr))"
    using assms(1) by (intro print_top_covered)
  let ?st = "\<lparr>vote_final_results = ?fr, vote_results = ?sum ?fr,
              vote_printed = vote_printed st @ rank_lines labels (?sum ?fr)\<rparr>"
  have step: "vote_image E c run st f = Inr ?st"
    using row Cons.prems(2) rows p by (simp add: vote_image_def np_append_def Let_def)
  have ih: "for_each (vote_image E c run) ?st fl =
     Inr \<lparr>vote_final_results = vote_final_results ?st @ rest,
          vote_results = (if fl = [] then vote_results ?st
                          else ?sum (vote_final_results ?st @ rest)),
          vote_printed = vote_printed ?st @
            concat (map (\<lambda>n. rank_lines labels (?sum (vote_final_results ?st @ take n rest)))
                      [1..<Suc (length rest)])\<rparr>"
    using rest Cons.prems(2) rows all by (intro Cons.IH) simp_all
  have len: "length fl = length rest" using rest by (metis length_map)
  have shift: "map (\<lambda>n. rank_lines labels (?sum (vote_final_results st @ take n (row # rest))))
                   [1..<Suc (length (row # rest))]
        = rank_lines labels (?sum ?fr) #
          map (\<lambda>n. rank_lines labels (?sum (?fr @ take n rest))) [1..<Suc (length rest)]"
  proof -
    have "[1..<Suc (length (row # rest))] = 1 # map Suc [1..<Suc (length rest)]"
      by (simp add: upt_conv_Cons map_Suc_upt del: upt_Suc)
    then show ?thesis by (simp add: comp_def del: upt_Suc)
  qed
  have "fl = [] \<Longrightarrow> rest = []" using len by simp
  then show ?case
    using step ih shift by (simp add: rows del: upt_Suc)
qed

text \<open>
  A voting run over any list of files that are classified into 99 scores each: the rows
  collected, the sum ranked last and the lines printed.
\<close>

lemma vote_files_loop:
  fixes E :: "('a::linordered_field) env"
  assumes "load_labels E (label_file c) = Inr labels" "99 \<le> length labels"
      and "map (classify E c run) fl = map Inr rows"
      and "\<forall>r\<in>set rows. length r = 99"
  shows "\<exists>st. for_each (vote_image E c run)
                \<lparr>vote_final_results = [], vote_results = [], vote_printed = []\<rparr> fl = Inr st
            \<and> vote_final_results st = rows
            \<and> vote_printed st =
                concat (map (\<lambda>n. rank_lines labels (np_sum (add_scores E) (take n rows)))
                          [1..<Suc (length rows)])
            \<and> (rows \<noteq> [] \<longrightarrow>
                  vote_results st = np_sum (add_scores E) rows
                \<and> final_ranking st = rank_lines labels (np_sum (add_scores E) rows))"
proof -
  let ?init = "\<lparr>vote_final_results = [], vote_results = [], vote_printed = []\<rparr> :: 'a vote_state"
  let ?sum = "np_sum (add_scores E)"
  let ?blocks = "concat (map (\<lambda>n. rank_lines labels (?sum (take n rows))) [1..<Suc (length rows)])"
  let ?st = "\<lparr>vote_final_results = rows,
           vote_results = (if fl = [] then [] else ?sum rows),
           vote_printed = ?blocks\<rparr>"
  have loop: "for_each (vote_image E c run) ?init fl = Inr ?st"
    using vote_loop [OF assms, of ?init] by simp
  have fe: "fl = [] \<longleftrightarrow> rows = []" using assms(3) by (metis length_map length_0_conv)
  have last_block: "drop (length ?blocks - 10) ?blocks = rank_lines labels (?sum rows)"
    if "rows \<noteq> []"
  proof -
    have "length (?sum rows) = 99" using assms(4) by (rule np_sum_length)
    then have ten: "length (rank_lines labels (?sum rows)) = 10" by (simp add: rank_lines_length)
    have "[1..<Suc (length rows)] = [1..<length rows] @ [length rows]"
      using that by (cases rows) simp_all
    then have "?blocks
        = concat (map (\<lambda>n. rank_lines labels (?sum (take n rows))) [1..<length rows])
          @ rank_lines labels (?sum rows)"
      by simp
    then show ?thesis using ten by simp
  qed
  have "vote_final_results ?st = rows" "vote_printed ?st = ?blocks" by simp_all
  moreover have "rows \<noteq> [] \<longrightarrow>
      vote_results ?st = ?sum rows \<and> final_ranking ?st = rank_lines labels (?sum rows)"
    using fe last_block by (simp add: final_ranking_def)
  ultimately show ?thesis using loop by blast
qed

lemma jpeg_files_set:
  assumes "F (strip_slashes d) = Some (Dir names)"
  shows "set (jpeg_files F d) =
     {dir_prefix d @ n | n. n \<in> set names \<and>
        (endswith n ''.jpg'' \<or> endswith n ''.jpeg'' \<or> endswith n ''.JPG'' \<or> endswith n ''.JPEG'')}"
  using assms by (auto simp: jpeg_files_def)

text \<open>
  C7 (amended). In voting mode the files iterated over are the entries of the directory
  searched, the path in \<^verbatim>\<open>file_name\<close>, whose names end in \<^verbatim>\<open>.jpg\<close>, \<^verbatim>\<open>.jpeg\<close>, \<^verbatim>\<open>.JPG\<close> or
  \<^verbatim>\<open>.JPEG\<close>, taken extension by extension; every such entry is included and nothing else
  is, so PNG, GIF and BMP files are left out. When the path is no directory there is no
  file to iterate over.
\<close>

theorem vote_mode_searches_jpeg_names:
  "vote_mode E c run =
     (case for_each (vote_image E c run)
             \<lparr>vote_final_results = [], vote_results = [], vote_printed = []\<rparr>
             (jpeg_files (fs E) (file_name c)) of
        Inl e \<Rightarrow> Inl e
      | Inr st \<Rightarrow>
          Inr \<lparr>vote_log = (if \<not> gfile_Exists (fs E) (file_name c)
                           then [not_found_message (file_name c)] else []),
               vote_files = jpeg_files (fs E) (file_name c),
               vote_final = st\<rparr>)
   \<and> (\<forall>names. fs E (strip_slashes (file_name c)) = Some (Dir names) \<longrightarrow>
         set (jpeg_files (fs E) (file_name c)) =
           {dir_prefix (file_name c) @ n | n. n \<in> set names \<and>
              (endswith n ''.jpg'' \<or> endswith n ''.jpeg'' \<or> endswith n ''.JPG''
               \<or> endswith n ''.JPEG'')})
   \<and> (fs E (strip_slashes (file_name c)) \<notin> range (\<lambda>names. Some (Dir names)) \<longrightarrow>
         jpeg_files (fs E) (file_name c) = [])"
proof (intro conjI allI impI)
  show "vote_mode E c run =
     (case for_each (vote_image E c run)
             \<lparr>vote_final_results = [], vote_results = [], vote_printed = []\<rparr>
             (jpeg_files (fs E) (file_name c)) of
        Inl e \<Rightarrow> Inl e
      | Inr st \<Rightarrow>
          Inr \<lparr>vote_log = (if \<not> gfile_Exists (fs E) (file_name c)
                           then [not_found_message (file_name c)] else []),
               vote_files = jpeg_files (fs E) (file_name c),
               vote_final = st\<rparr>)"
    by (simp add: vote_mode_def glob_extensions_files Let_def)
next
  fix names
  assume "fs E (strip_slashes (file_name c)) = Some (Dir names)"
  then show "set (jpeg_files (fs E) (file_name c)) =
           {dir_prefix (file_name c) @ n | n. n \<in> set names \<and>
              (endswith n ''.jpg'' \<or> endswith n ''.jpeg'' \<or> endswith n ''.JPG''
               \<or> endswith n ''.JPEG'')}"
    by (rule jpeg_files_set)
next
  assume "fs E (strip_slashes (file_name c)) \<notin> range (\<lambda>names. Some (Dir names))"
  then show "jpeg_files (fs E) (file_name c) = []"
    by (auto simp: jpeg_files_def split: option.splits node.splits)
qed

lemma toy_vote_dir:
  "fs (toy_env toy_fs T) (strip_slashes (file_name toy_vote_config))
     = Some (Dir [''a.jpg'', ''bb.jpg'', ''c.png''])"
  by (simp add: toy_env_def toy_vote_config_def strip_slashes_def toy_fs_def vote_folder_def
        top_k_folder_def)

theorem vote_mode_searches_jpeg_names_witness:
  "vote_folder @ ''/set1/bb.jpg''
     \<in> set (jpeg_files (fs (toy_env toy_fs toy_labels)) (file_name toy_vote_config))"
proof -
  let ?E = "toy_env toy_fs toy_labels"
  have "set (jpeg_files (fs ?E) (file_name toy_vote_config)) =
           {dir_prefix (file_name toy_vote_config) @ n | n.
              n \<in> set [''a.jpg'', ''bb.jpg'', ''c.png''] \<and>
              (endswith n ''.jpg'' \<or> endswith n ''.jpeg'' \<or> endswith n ''.JPG''
               \<or> endswith n ''.JPEG'')}"
    using vote_mode_searches_jpeg_names [of ?E toy_vote_config toy_run] toy_vote_dir [of toy_labels]
    by blast
  moreover have "dir_prefix (file_name toy_vote_config) @ ''bb.jpg'' = vote_folder @ ''/set1/bb.jpg''"
    by (simp add: dir_prefix_def toy_vote_config_def)
  moreover have "endswith ''bb.jpg'' ''.jpg''" by (simp add: endswith_def suffix_to_prefix)
  ultimately show ?thesis by force
qed

text \<open>
  C4 (amended). In voting mode, when every file found is classified into 99 scores and the
  label file has at least 99 labels, the run completes, and so does the loop over the same
  files in any other order. After the i-th file the ten lines printed rank the sum of the
  first i output vectors. The vector ranked last holds, at every class, the scores of the
  files there added to zero one after the other in the order of iteration, with the
  addition that numpy has for two scores, which rounds. When these sums have no rounding
  error, the vector ranked last is the elementwise sum of the output vectors; and when
  that is so in both orders, the two orders rank the same vector and print the same final
  ranking.
\<close>

theorem vote_mode_ranks_running_sums:
  fixes E :: "('a::linordered_field) env"
  assumes lab: "load_labels E (label_file c) = Inr labels" "99 \<le> length labels"
      and rows: "map (classify E c run) (jpeg_files (fs E) (file_name c)) = map Inr rows"
                "\<forall>r\<in>set rows. length r = 99"
      and perm: "mset fl' = mset (jpeg_files (fs E) (file_name c))"
  shows "\<exists>r st'.
           vote_mode E c run = Inr r
         \<and> for_each (vote_image E c run)
               \<lparr>vote_final_results = [], vote_results = [], vote_printed = []\<rparr> fl' = Inr st'
         \<and> vote_final_results (vote_final r) = rows
         \<and> mset (vote_final_results st') = mset rows
         \<and> vote_printed (vote_final r) =
               concat (map (\<lambda>n. rank_lines labels (np_sum (add_scores E) (take n rows)))
                         [1..<Suc (length rows)])
         \<and> (rows \<noteq> [] \<longrightarrow>
               length (vote_results (vote_final r)) = 99
             \<and> length (vote_results st') = 99
             \<and> (\<forall>j<99. vote_results (vote_final r) ! j
                          = foldl (add_scores E) 0 (map (\<lambda>row. row ! j) rows))
             \<and> (\<forall>j<99. vote_results st' ! j
                          = foldl (add_scores E) 0 (map (\<lambda>row. row ! j) (vote_final_results st')))
             \<and> final_ranking (vote_final r) = rank_lines labels (vote_results (vote_final r))
             \<and> final_ranking st' = rank_lines labels (vote_results st')
             \<and> (adds_exactly (add_scores E) rows \<longrightarrow>
                  (\<forall>j<99. vote_results (vote_final r) ! j = sum_list (map (\<lambda>row. row ! j) rows))
                \<and> (adds_exactly (add_scores E) (vote_final_results st') \<longrightarrow>
                     vote_results st' = vote_results (vote_final r)
                   \<and> final_ranking st' = final_ranking (vote_final r))))"
proof -
  let ?fl = "jpeg_files (fs E) (file_name c)"
  let ?init = "\<lparr>vote_final_results = [], vote_results = [], vote_printed = []\<rparr> :: 'a vote_state"
  let ?sum = "np_sum (add_scores E)"
  let ?g = "\<lambda>f. projr (classify E c run f)"
  have g: "classify E c run f = Inr (?g f)" if "f \<in> set ?fl" for f
  proof -
    from that obtain i where i: "i < length ?fl" "?fl ! i = f" by (auto simp: in_set_conv_nth)
    then have "map (classify E c run) ?fl ! i = map Inr rows ! i" using rows(1) by simp
    moreover have "i < length rows" using i rows(1) by (metis length_map)
    ultimately have "classify E c run f = Inr (rows ! i)" using i by simp
    then show ?thesis by simp
  qed
  have rows_g: "rows = map ?g ?fl"
  proof -
    have "map (classify E c run) ?fl = map (\<lambda>f. Inr (?g f)) ?fl"
      by (rule map_cong [OF refl]) (rule g)
    then have "(map Inr rows :: (error + 'a list) list) = map Inr (map ?g ?fl)"
      using rows(1) by (simp add: comp_def)
    moreover have "inj (Inr :: 'a list \<Rightarrow> error + 'a list)" by (simp add: inj_def)
    ultimately show ?thesis by (metis inj_map_eq_map)
  qed
  let ?rows' = "map ?g fl'"
  have set': "set fl' = set ?fl" using perm by (metis set_mset_mset)
  have c': "map (classify E c run) fl' = map Inr ?rows'" using g set' by simp
  have m': "mset ?rows' = mset rows" using perm rows_g by simp
  then have l': "\<forall>r\<in>set ?rows'. length r = 99" using rows(2) by (metis set_mset_mset)
  have e': "?rows' \<noteq> []" if "rows \<noteq> []" using m' that by (metis mset_zero_iff)
  from vote_files_loop [OF lab rows] obtain st
    where loop: "for_each (vote_image E c run) ?init ?fl = Inr st"
      and fr: "vote_final_results st = rows"
      and pr: "vote_printed st =
                 concat (map (\<lambda>n. rank_lines labels (?sum (take n rows))) [1..<Suc (length rows)])"
      and res: "rows \<noteq> [] \<longrightarrow>
                  vote_results st = ?sum rows \<and> final_ranking st = rank_lines labels (?sum rows)"
    by blast
  from vote_files_loop [OF lab c' l'] obtain st'
    where loop': "for_each (vote_image E c run) ?init fl' = Inr st'"
      and fr': "vote_final_results st' = ?rows'"
      and res': "?rows' \<noteq> [] \<longrightarrow>
                  vote_results st' = ?sum ?rows' \<and> final_ranking st' = rank_lines labels (?sum ?rows')"
    by blast
  let ?r = "\<lparr>vote_log = (if \<not> gfile_Exists (fs E) (file_name c)
                           then [not_found_message (file_name c)] else []),
               vote_files = ?fl, vote_final = st\<rparr>"
  have run: "vote_mode E c run = Inr ?r"
    using loop by (simp add: vote_mode_def glob_extensions_files Let_def)
  have a: "vote_final_results (vote_final ?r) = rows" using fr by simp
  have a': "mset (vote_final_results st') = mset rows" using fr' m' by simp
  have b: "vote_printed (vote_final ?r) =
             concat (map (\<lambda>n. rank_lines labels (?sum (take n rows))) [1..<Suc (length rows)])"
    using pr by simp
  have d: "length (vote_results (vote_final ?r)) = 99
         \<and> length (vote_results st') = 99
         \<and> (\<forall>j<99. vote_results (vote_final ?r) ! j
                      = foldl (add_scores E) 0 (map (\<lambda>row. row ! j) rows))
         \<and> (\<forall>j<99. vote_results st' ! j
                      = foldl (add_scores E) 0 (map (\<lambda>row. row ! j) (vote_final_results st')))
         \<and> final_ranking (vote_final ?r) = rank_lines labels (vote_results (vote_final ?r))
         \<and> final_ranking st' = rank_lines labels (vote_results st')
         \<and> (adds_exactly (add_scores E) rows \<longrightarrow>
              (\<forall>j<99. vote_results (vote_final ?r) ! j = sum_list (map (\<lambda>row. row ! j) rows))
            \<and> (adds_exactly (add_scores E) (vote_final_results st') \<longrightarrow>
                 vote_results st' = vote_results (vote_final ?r)
               \<and> final_ranking st' = final_ranking (vote_final ?r)))"
    if ne: "rows \<noteq> []"
  proof -
    have v: "vote_results st = ?sum rows" and k: "final_ranking st = rank_lines labels (?sum rows)"
      using res ne by simp_all
    have v': "vote_results st' = ?sum ?rows'"
      and k': "final_ranking st' = rank_lines labels (?sum ?rows')"
      using res' e' [OF ne] by simp_all
    have 1: "length (vote_results (vote_final ?r)) = 99" using v rows(2) by (simp add: np_sum_length)
    have 2: "length (vote_results st') = 99" using v' l' by (simp add: np_sum_length)
    have 3: "\<forall>j<99. vote_results (vote_final ?r) ! j
                      = foldl (add_scores E) 0 (map (\<lambda>row. row ! j) rows)"
      using v rows(2) by (simp add: np_sum_nth)
    have 4: "\<forall>j<99. vote_results st' ! j
                      = foldl (add_scores E) 0 (map (\<lambda>row. row ! j) (vote_final_results st'))"
      using v' l' fr' by (simp add: np_sum_nth)
    have 5: "final_ranking (vote_final ?r) = rank_lines labels (vote_results (vote_final ?r))"
      using v k by simp
    have 6: "final_ranking st' = rank_lines labels (vote_results st')"
      using v' k' by simp
    have 7: "\<forall>j<99. vote_results (vote_final ?r) ! j = sum_list (map (\<lambda>row. row ! j) rows)"
      if "adds_exactly (add_scores E) rows"
      using that v rows(2) by (simp add: np_sum_exact)
    have 8: "vote_results st' = vote_results (vote_final ?r)
           \<and> final_ranking st' = final_ranking (vote_final ?r)"
      if x: "adds_exactly (add_scores E) rows" "adds_exactly (add_scores E) (vote_final_results st')"
    proof -
      have "?sum ?rows' = ?sum rows"
        using m' rows(2) x fr' by (intro np_sum_permuted) simp_all
      then show ?thesis using v v' 5 6 by simp
    qed
    show ?thesis using 1 2 3 4 5 6 7 8 by (intro conjI impI) blast+
  qed
  show ?thesis
    by (intro exI [of _ ?r] exI [of _ st']) (use run loop' a a' b d in blast)
qed

text \<open>The example folder, with two pictures and a PNG file.\<close>

lemma toy_row_length: "length (toy_row f) = 99"
  by (simp add: toy_row_def)

lemma toy_row_nth: "j < 99 \<Longrightarrow> toy_row f ! j = of_nat j * (of_nat (length f) / 255)"
  by (simp add: toy_row_def)

lemma toy_classify_row:
  assumes "F (strip_slashes f) = Some File" "\<not> endswith f ''.png''" "\<not> endswith f ''.gif''"
    "\<not> endswith f ''.bmp''"
    and "input_height c = 2" "input_width c = 2" "input_mean c = 0" "input_std c = 255"
  shows "classify (toy_env F T) c toy_run f = Inr (toy_row f)"
  using toy_classify [of F f c T toy_run] assms by (simp add: toy_run_def toy_row_def)

lemma toy_vote_run:
  "vote_mode (toy_env toy_fs toy_labels) toy_vote_config toy_run =
     Inr \<lparr>vote_log = [],
          vote_files = [vote_folder @ ''/set1/a.jpg'', vote_folder @ ''/set1/bb.jpg''],
          vote_final =
            \<lparr>vote_final_results =
               [toy_row (vote_folder @ ''/set1/a.jpg''), toy_row (vote_folder @ ''/set1/bb.jpg'')],
             vote_results =
               np_sum (+) [toy_row (vote_folder @ ''/set1/a.jpg''),
                           toy_row (vote_folder @ ''/set1/bb.jpg'')],
             vote_printed =
               rank_lines (map str_nat [0..<99])
                   (np_sum (+) [toy_row (vote_folder @ ''/set1/a.jpg'')])
               @ rank_lines (map str_nat [0..<99])
                   (np_sum (+) [toy_row (vote_folder @ ''/set1/a.jpg''),
                                toy_row (vote_folder @ ''/set1/bb.jpg'')])\<rparr>\<rparr>"
proof -
  let ?E = "toy_env toy_fs toy_labels"
  let ?a = "vote_folder @ ''/set1/a.jpg''"
  let ?b = "vote_folder @ ''/set1/bb.jpg''"
  let ?init = "\<lparr>vote_final_results = [], vote_results = [], vote_printed = []\<rparr> :: rat vote_state"
  have l: "load_labels ?E (label_file toy_vote_config) = Inr (map str_nat [0..<99])"
    using load_labels_number_lines [of toy_fs "[0..<99]"]
    by (simp add: toy_vote_config_def toy_config_def toy_labels_def)
  have n: "99 \<le> length (map str_nat [0..<99])" by simp
  have files: "jpeg_files (fs ?E) (file_name toy_vote_config) = [?a, ?b]"
    using toy_vote_files by (simp add: toy_env_def toy_vote_config_def)
  have rows: "map (classify ?E toy_vote_config toy_run) [?a, ?b] = map Inr [toy_row ?a, toy_row ?b]"
    by (simp add: toy_classify_row toy_files_exist toy_files_jpeg toy_config_size)
  have len: "\<forall>r\<in>set [toy_row ?a, toy_row ?b]. length r = 99" by (simp add: toy_row_length)
  have init: "\<forall>r\<in>set (vote_final_results ?init). length r = 99" by simp
  have plus: "add_scores ?E = (+)" by (simp add: toy_env_def)
  have "[1..<Suc (length [toy_row ?a, toy_row ?b])] = [1, 2]"
    by (simp add: upt_rec)
  then have loop: "for_each (vote_image ?E toy_vote_config toy_run) ?init [?a, ?b] =
      Inr \<lparr>vote_final_results = [toy_row ?a, toy_row ?b],
           vote_results = np_sum (+) [toy_row ?a, toy_row ?b],
           vote_printed = rank_lines (map str_nat [0..<99]) (np_sum (+) [toy_row ?a])
             @ rank_lines (map str_nat [0..<99]) (np_sum (+) [toy_row ?a, toy_row ?b])\<rparr>"
    using vote_loop [OF l n rows len init] by (simp add: plus del: upt_Suc)
  have ex: "gfile_Exists (fs ?E) (file_name toy_vote_config)"
    using toy_vote_dir [of toy_labels] by (simp add: gfile_Exists_def)
  show ?thesis
    using loop ex files by (simp add: vote_mode_def glob_extensions_files Let_def)
qed

theorem vote_mode_ranks_running_sums_witness:
  "\<exists>r. vote_mode (toy_env toy_fs toy_labels) toy_vote_config toy_run = Inr r
       \<and> vote_results (vote_final r) ! 98 =
           toy_row (vote_folder @ ''/set1/a.jpg'') ! 98 + toy_row (vote_folder @ ''/set1/bb.jpg'') ! 98
       \<and> final_ranking (vote_final r) =
           rank_lines (map str_nat [0..<99]) (vote_results (vote_final r))"
proof -
  let ?E = "toy_env toy_fs toy_labels"
  let ?a = "vote_folder @ ''/set1/a.jpg''"
  let ?b = "vote_folder @ ''/set1/bb.jpg''"
  have l: "load_labels ?E (label_file toy_vote_config) = Inr (map str_nat [0..<99])"
    using load_labels_number_lines [of toy_fs "[0..<99]"]
    by (simp add: toy_vote_config_def toy_config_def toy_labels_def)
  have n: "99 \<le> length (map str_nat [0..<99])" by simp
  have files: "jpeg_files (fs ?E) (file_name toy_vote_config) = [?a, ?b]"
    using toy_vote_files by (simp add: toy_env_def toy_vote_config_def)
  have rows: "map (classify ?E toy_vote_config toy_run) (jpeg_files (fs ?E) (file_name toy_vote_config))
                = map Inr [toy_row ?a, toy_row ?b]"
    unfolding files
    by (simp add: toy_classify_row toy_files_exist toy_files_jpeg toy_config_size)
  have len: "\<forall>r\<in>set [toy_row ?a, toy_row ?b]. length r = 99" by (simp add: toy_row_length)
  have perm: "mset [?b, ?a] = mset (jpeg_files (fs ?E) (file_name toy_vote_config))"
    unfolding files by simp
  have ne: "[toy_row ?a, toy_row ?b] \<noteq> []" by simp
  have exact: "adds_exactly (add_scores ?E) [toy_row ?a, toy_row ?b]"
    by (simp add: toy_env_def adds_exactly_plus)
  from vote_mode_ranks_running_sums [OF l n rows len perm] obtain r
    where run: "vote_mode ?E toy_vote_config toy_run = Inr r"
      and all: "[toy_row ?a, toy_row ?b] \<noteq> [] \<longrightarrow>
             final_ranking (vote_final r)
               = rank_lines (map str_nat [0..<99]) (vote_results (vote_final r))
           \<and> (adds_exactly (add_scores ?E) [toy_row ?a, toy_row ?b] \<longrightarrow>
                (\<forall>j<99. vote_results (vote_final r) ! j
                   = sum_list (map (\<lambda>row. row ! j) [toy_row ?a, toy_row ?b])))"
    by blast
  from all ne exact have
    "vote_results (vote_final r) ! 98 = sum_list (map (\<lambda>row. row ! 98) [toy_row ?a, toy_row ?b])"
    by simp
  then have "vote_results (vote_final r) ! 98 = toy_row ?a ! 98 + toy_row ?b ! 98" by simp
  then show ?thesis using run all ne by blast
qed

text \<open>Sums of float64 numbers: the example folder of four pictures.\<close>

lemma float_sums:
  "foldl float64_add 0 [1, 1 / 2 ^ 53, 1 / 2 ^ 53, 1 / 2 ^ 53] = 1"
  "foldl float64_add 0 [1 / 2 ^ 53, 1 / 2 ^ 53, 1 / 2 ^ 53, 1] = 1 + 1 / 2 ^ 51"
  "foldl float64_add 0 [1, 1 / 2 ^ 52, 0, 0] = 1 + 1 / 2 ^ 52"
  "foldl float64_add 0 [1 / 2 ^ 52, 0, 0, 1] = 1 + 1 / 2 ^ 52"
  "foldl float64_add 0 [0, 0, 0, 0] = 0"
  by code_simp+

lemma float_scores_nth:
  "float_scores n ! 0 = (if n = length (vote_folder @ ''/set1/a.jpg'') then 1 else 1 / 2 ^ 53)"
  "float_scores n ! Suc 0 = (if n = length (vote_folder @ ''/set1/a.jpg'') then 1
                         else if n = length (vote_folder @ ''/set1/bb.jpg'') then 1 / 2 ^ 52
                         else 0)"
  "2 \<le> j \<Longrightarrow> j < 99 \<Longrightarrow> float_scores n ! j = 0"
  "length (float_scores n) = 99"
  by (auto simp: float_scores_def nth_append nth_Cons' simp del: length_append)

lemma image_reader_add_scores: "image_reader (E\<lparr>add_scores := a\<rparr>) d b = image_reader E d b"
  by (cases d) (simp_all add: image_reader_def)

lemma classify_add_scores: "classify (E\<lparr>add_scores := a\<rparr>) c run f = classify E c run f"
  by (simp add: classify_def read_tensor_from_image_file_def image_reader_add_scores
        cong: sum.case_cong)

lemma float_classify:
  assumes "F (strip_slashes f) = Some File" "\<not> endswith f ''.png''" "\<not> endswith f ''.gif''"
    "\<not> endswith f ''.bmp''"
  shows "classify (float_env F) toy_vote_config float_run f = Inr (float_scores (length f))"
proof -
  have "classify (float_env F) toy_vote_config float_run f
          = float_run \<lparr>shape = [1, 2, 2, 3], elems = replicate 12 (of_nat (length f) / 255)\<rparr>"
    using toy_classify [of F f toy_vote_config toy_labels float_run] assms
    by (simp add: float_env_def classify_add_scores toy_config_size)
  then show ?thesis by (simp add: float_run_def)
qed

lemma float_vote_run:
  assumes files: "jpeg_files F (vote_folder @ ''/set1'') = fl"
      and rows: "map (classify (float_env F) toy_vote_config float_run) fl = map Inr rows"
      and len: "\<forall>r\<in>set rows. length r = 99" and ne: "rows \<noteq> []"
  shows "\<exists>r. vote_mode (float_env F) toy_vote_config float_run = Inr r
           \<and> vote_files r = fl
           \<and> vote_results (vote_final r) = np_sum float64_add rows
           \<and> final_ranking (vote_final r)
               = rank_lines (map str_nat [0..<99]) (np_sum float64_add rows)"
proof -
  let ?E = "float_env F"
  have l: "load_labels ?E (label_file toy_vote_config) = Inr (map str_nat [0..<99])"
    using load_labels_number_lines [of F "[0..<99]"]
    by (simp add: float_env_def load_labels_def toy_vote_config_def toy_config_def toy_labels_def)
  have n: "99 \<le> length (map str_nat [0..<99])" by simp
  have e: "fs ?E = F" "add_scores ?E = float64_add" "file_name toy_vote_config = vote_folder @ ''/set1''"
    by (simp_all add: float_env_def toy_env_def toy_vote_config_def)
  from vote_files_loop [OF l n rows len] obtain st
    where "for_each (vote_image ?E toy_vote_config float_run)
             \<lparr>vote_final_results = [], vote_results = [], vote_printed = []\<rparr> fl = Inr st"
      and "rows \<noteq> [] \<longrightarrow>
             vote_results st = np_sum float64_add rows
           \<and> final_ranking st = rank_lines (map str_nat [0..<99]) (np_sum float64_add rows)"
    unfolding e by blast
  then show ?thesis
    using ne files by (simp add: vote_mode_def glob_extensions_files Let_def e)
qed

lemma np_sum_four:
  assumes "\<forall>r\<in>set [r1, r2, r3, r4]. length r = 99" "j < 99"
  shows "np_sum add [r1, r2, r3, r4] ! j = foldl add 0 [r1 ! j, r2 ! j, r3 ! j, r4 ! j]"
  using np_sum_nth [OF assms] by simp

lemma take_two: "2 \<le> length v \<Longrightarrow> take 2 v = [v ! 0, v ! 1]"
  by (cases v; cases "tl v") (auto simp: numeral_2_eq_2)

lemma rank_lines_unique_best:
  assumes "length v = 99" "i < 99" "\<forall>j<99. j \<noteq> i \<longrightarrow> v ! j < v ! i"
  shows "hd (rank_lines (map str_nat [0..<99]) v) = (str_nat i, v ! i)"
proof -
  have h: "hd (top_indices 10 v) = i"
    using assms by (intro top_indices_unique_best) simp_all
  have "length (top_indices 10 v) = 10" using assms(1) by (simp add: top_indices_length)
  then have "top_indices 10 v \<noteq> []" by auto
  then have "hd (rank_lines (map str_nat [0..<99]) v)
               = (map str_nat [0..<99] ! hd (top_indices 10 v), v ! hd (top_indices 10 v))"
    by (simp add: rank_lines_def hd_map)
  then show ?thesis using h assms(2) by (simp del: upt_Suc)
qed

text \<open>
  The claim as it was stated, that the sum and the final ranking are the same for every
  order of the files, fails for sums of float64 numbers. The same four pictures listed in
  two orders: when the picture that scores 1 for class 0 comes first, each \<open>1 / 2 ^ 53\<close>
  added to it is rounded away and class 0 ends at 1, behind class 1; when it comes last,
  the small scores add up first, class 0 ends at \<open>1 + 1 / 2 ^ 51\<close> and leads.
\<close>

theorem vote_mode_sum_depends_on_order_counterexample:
  "map_sum id vote_files
       (vote_mode (float_env (listed_fs [''a.jpg'', ''bb.jpg'', ''ccc.jpg'', ''dddd.jpg'']))
          toy_vote_config float_run)
     = Inr [vote_folder @ ''/set1/a.jpg'', vote_folder @ ''/set1/bb.jpg'',
            vote_folder @ ''/set1/ccc.jpg'', vote_folder @ ''/set1/dddd.jpg'']
   \<and> map_sum id vote_files
       (vote_mode (float_env (listed_fs [''bb.jpg'', ''ccc.jpg'', ''dddd.jpg'', ''a.jpg'']))
          toy_vote_config float_run)
     = Inr [vote_folder @ ''/set1/bb.jpg'', vote_folder @ ''/set1/ccc.jpg'',
            vote_folder @ ''/set1/dddd.jpg'', vote_folder @ ''/set1/a.jpg'']
   \<and> map_sum id (take 2 \<circ> vote_results \<circ> vote_final)
       (vote_mode (float_env (listed_fs [''a.jpg'', ''bb.jpg'', ''ccc.jpg'', ''dddd.jpg'']))
          toy_vote_config float_run)
     = Inr [1, 1 + 1 / 2 ^ 52]
   \<and> map_sum id (take 2 \<circ> vote_results \<circ> vote_final)
       (vote_mode (float_env (listed_fs [''bb.jpg'', ''ccc.jpg'', ''dddd.jpg'', ''a.jpg'']))
          toy_vote_config float_run)
     = Inr [1 + 1 / 2 ^ 51, 1 + 1 / 2 ^ 52]
   \<and> map_sum id (hd \<circ> final_ranking \<circ> vote_final)
       (vote_mode (float_env (listed_fs [''a.jpg'', ''bb.jpg'', ''ccc.jpg'', ''dddd.jpg'']))
          toy_vote_config float_run)
     = Inr (''1'', 1 + 1 / 2 ^ 52)
   \<and> map_sum id (hd \<circ> final_ranking \<circ> vote_final)
       (vote_mode (float_env (listed_fs [''bb.jpg'', ''ccc.jpg'', ''dddd.jpg'', ''a.jpg'']))
          toy_vote_config float_run)
     = Inr (''0'', 1 + 1 / 2 ^ 51)"
proof -
  let ?A = "listed_fs [''a.jpg'', ''bb.jpg'', ''ccc.jpg'', ''dddd.jpg'']"
  let ?B = "listed_fs [''bb.jpg'', ''ccc.jpg'', ''dddd.jpg'', ''a.jpg'']"
  let ?a = "vote_folder @ ''/set1/a.jpg''"
  let ?b = "vote_folder @ ''/set1/bb.jpg''"
  let ?c = "vote_folder @ ''/set1/ccc.jpg''"
  let ?d = "vote_folder @ ''/set1/dddd.jpg''"
  let ?ra = "float_scores (length ?a)"
  let ?rb = "float_scores (length ?b)"
  let ?rc = "float_scores (length ?c)"
  let ?rd = "float_scores (length ?d)"
  let ?L = "map str_nat [0..<99]"
  have filesA: "jpeg_files ?A (vote_folder @ ''/set1'') = [?a, ?b, ?c, ?d]"
    by (simp add: jpeg_files_def strip_slashes_def listed_fs_def vote_folder_def
          dir_prefix_def endswith_def suffix_to_prefix)
  have filesB: "jpeg_files ?B (vote_folder @ ''/set1'') = [?b, ?c, ?d, ?a]"
    by (simp add: jpeg_files_def strip_slashes_def listed_fs_def vote_folder_def
          dir_prefix_def endswith_def suffix_to_prefix)
  have existA: "?A (strip_slashes ?a) = Some File" "?A (strip_slashes ?b) = Some File"
    "?A (strip_slashes ?c) = Some File" "?A (strip_slashes ?d) = Some File"
    by (simp_all add: strip_slashes_def listed_fs_def vote_folder_def)
  have existB: "?B (strip_slashes ?a) = Some File" "?B (strip_slashes ?b) = Some File"
    "?B (strip_slashes ?c) = Some File" "?B (strip_slashes ?d) = Some File"
    by (simp_all add: strip_slashes_def listed_fs_def vote_folder_def)
  have jpeg: "\<not> endswith ?a ''.png''" "\<not> endswith ?a ''.gif''" "\<not> endswith ?a ''.bmp''"
    "\<not> endswith ?b ''.png''" "\<not> endswith ?b ''.gif''" "\<not> endswith ?b ''.bmp''"
    "\<not> endswith ?c ''.png''" "\<not> endswith ?c ''.gif''" "\<not> endswith ?c ''.bmp''"
    "\<not> endswith ?d ''.png''" "\<not> endswith ?d ''.gif''" "\<not> endswith ?d ''.bmp''"
    by (simp_all add: endswith_def suffix_to_prefix vote_folder_def)
  have rowsA: "map (classify (float_env ?A) toy_vote_config float_run) [?a, ?b, ?c, ?d]
                 = map Inr [?ra, ?rb, ?rc, ?rd]"
    using existA jpeg by (simp add: float_classify del: length_append)
  have rowsB: "map (classify (float_env ?B) toy_vote_config float_run) [?b, ?c, ?d, ?a]
                 = map Inr [?rb, ?rc, ?rd, ?ra]"
    using existB jpeg by (simp add: float_classify del: length_append)
  have lenA: "\<forall>r\<in>set [?ra, ?rb, ?rc, ?rd]. length r = 99"
    and lenB: "\<forall>r\<in>set [?rb, ?rc, ?rd, ?ra]. length r = 99"
    by (simp_all add: float_scores_nth(4) del: length_append)
  let ?vA = "np_sum float64_add [?ra, ?rb, ?rc, ?rd]"
  let ?vB = "np_sum float64_add [?rb, ?rc, ?rd, ?ra]"
  have lA: "length ?vA = 99" using lenA by (rule np_sum_length)
  have lB: "length ?vB = 99" using lenB by (rule np_sum_length)
  have v0: "?ra ! 0 = 1" "?rb ! 0 = 1 / 2 ^ 53" "?rc ! 0 = 1 / 2 ^ 53" "?rd ! 0 = 1 / 2 ^ 53"
    and v1: "?ra ! 1 = 1" "?rb ! 1 = 1 / 2 ^ 52" "?rc ! 1 = 0" "?rd ! 1 = 0"
    by (simp_all add: float_scores_nth)
  have v2: "?ra ! j = 0" "?rb ! j = 0" "?rc ! j = 0" "?rd ! j = 0" if "2 \<le> j" "j < 99" for j
    using that by (simp_all only: float_scores_nth(3))
  have A0: "?vA ! 0 = 1"
  proof -
    have "?vA ! 0 = foldl float64_add 0 [?ra ! 0, ?rb ! 0, ?rc ! 0, ?rd ! 0]"
      using lenA by (rule np_sum_four) simp
    also have "\<dots> = foldl float64_add 0 [1, 1 / 2 ^ 53, 1 / 2 ^ 53, 1 / 2 ^ 53]"
      by (simp only: v0)
    also have "\<dots> = 1" by (rule float_sums)
    finally show ?thesis .
  qed
  have A1: "?vA ! 1 = 1 + 1 / 2 ^ 52"
  proof -
    have "?vA ! 1 = foldl float64_add 0 [?ra ! 1, ?rb ! 1, ?rc ! 1, ?rd ! 1]"
      using lenA by (rule np_sum_four) simp
    also have "\<dots> = foldl float64_add 0 [1, 1 / 2 ^ 52, 0, 0]"
      by (simp only: v1)
    also have "\<dots> = 1 + 1 / 2 ^ 52" by (rule float_sums)
    finally show ?thesis .
  qed
  have B0: "?vB ! 0 = 1 + 1 / 2 ^ 51"
  proof -
    have "?vB ! 0 = foldl float64_add 0 [?rb ! 0, ?rc ! 0, ?rd ! 0, ?ra ! 0]"
      using lenB by (rule np_sum_four) simp
    also have "\<dots> = foldl float64_add 0 [1 / 2 ^ 53, 1 / 2 ^ 53, 1 / 2 ^ 53, 1]"
      by (simp only: v0)
    also have "\<dots> = 1 + 1 / 2 ^ 51" by (rule float_sums)
    finally show ?thesis .
  qed
  have B1: "?vB ! 1 = 1 + 1 / 2 ^ 52"
  proof -
    have "?vB ! 1 = foldl float64_add 0 [?rb ! 1, ?rc ! 1, ?rd ! 1, ?ra ! 1]"
      using lenB by (rule np_sum_four) simp
    also have "\<dots> = foldl float64_add 0 [1 / 2 ^ 52, 0, 0, 1]"
      by (simp only: v1)
    also have "\<dots> = 1 + 1 / 2 ^ 52" by (rule float_sums)
    finally show ?thesis .
  qed
  have A2: "?vA ! j = 0" and B2: "?vB ! j = 0" if j: "2 \<le> j" "j < 99" for j
  proof -
    have "?vA ! j = foldl float64_add 0 [?ra ! j, ?rb ! j, ?rc ! j, ?rd ! j]"
      using lenA j(2) by (rule np_sum_four)
    also have "\<dots> = foldl float64_add 0 [0, 0, 0, 0]"
      by (simp only: v2 [OF j])
    also have "\<dots> = 0" by (rule float_sums)
    finally show "?vA ! j = 0" .
    have "?vB ! j = foldl float64_add 0 [?rb ! j, ?rc ! j, ?rd ! j, ?ra ! j]"
      using lenB j(2) by (rule np_sum_four)
    also have "\<dots> = foldl float64_add 0 [0, 0, 0, 0]"
      by (simp only: v2 [OF j])
    also have "\<dots> = 0" by (rule float_sums)
    finally show "?vB ! j = 0" .
  qed
  have bestA: "\<forall>j<99. j \<noteq> 1 \<longrightarrow> ?vA ! j < ?vA ! 1"
  proof (intro allI impI)
    fix j :: nat
    assume "j < 99" "j \<noteq> 1"
    then consider "j = 0" | "2 \<le> j" "j < 99" by linarith
    then show "?vA ! j < ?vA ! 1"
    proof cases
      case 1
      then show ?thesis by (simp only: A0 A1) simp
    next
      case 2
      then show ?thesis by (simp only: A2 A1) (simp add: add_pos_pos)
    qed
  qed
  have bestB: "\<forall>j<99. j \<noteq> 0 \<longrightarrow> ?vB ! j < ?vB ! 0"
  proof (intro allI impI)
    fix j :: nat
    assume "j < 99" "j \<noteq> 0"
    then consider "j = 1" | "2 \<le> j" "j < 99" by linarith
    then show "?vB ! j < ?vB ! 0"
    proof cases
      case 1
      then show ?thesis by (simp only: B0 B1) simp
    next
      case 2
      then show ?thesis by (simp only: B2 B0) (simp add: add_pos_pos)
    qed
  qed
  have topA: "hd (rank_lines ?L ?vA) = (str_nat 1, ?vA ! 1)"
    using lA bestA by (intro rank_lines_unique_best) simp_all
  have topB: "hd (rank_lines ?L ?vB) = (str_nat 0, ?vB ! 0)"
    using lB bestB by (intro rank_lines_unique_best) simp_all
  have names: "str_nat 0 = ''0''" "str_nat 1 = ''1''" by code_simp+
  have takeA: "take 2 ?vA = [1, 1 + 1 / 2 ^ 52]" using lA A0 A1 by (simp add: take_two)
  have takeB: "take 2 ?vB = [1 + 1 / 2 ^ 51, 1 + 1 / 2 ^ 52]" using lB B0 B1 by (simp add: take_two)
  from float_vote_run [OF filesA rowsA lenA] obtain rA
    where rA: "vote_mode (float_env ?A) toy_vote_config float_run = Inr rA"
      "vote_files rA = [?a, ?b, ?c, ?d]" "vote_results (vote_final rA) = ?vA"
      "final_ranking (vote_final rA) = rank_lines ?L ?vA"
    by auto
  from float_vote_run [OF filesB rowsB lenB] obtain rB
    where rB: "vote_mode (float_env ?B) toy_vote_config float_run = Inr rB"
      "vote_files rB = [?b, ?c, ?d, ?a]" "vote_results (vote_final rB) = ?vB"
      "final_ranking (vote_final rB) = rank_lines ?L ?vB"
    by auto
  show ?thesis
    unfolding rA(1) rB(1)
    using rA(2-4) rB(2-4) takeA takeB topA topB A1 B0 names by simp
qed

text \<open>
  The claim that every image of the folder with a known extension is iterated over fails
  for the PNG file of the example folder.
\<close>

theorem vote_mode_skips_png_counterexample:
  "toy_fs (vote_folder @ ''/set1/c.png'') = Some File
   \<and> map_sum id vote_files (vote_mode (toy_env toy_fs toy_labels) toy_vote_config toy_run)
       = Inr [vote_folder @ ''/set1/a.jpg'', vote_folder @ ''/set1/bb.jpg'']"
proof -
  have "toy_fs (vote_folder @ ''/set1/c.png'') = Some File"
    by (simp add: toy_fs_def vote_folder_def top_k_folder_def)
  then show ?thesis by (simp add: toy_vote_run)
qed

end
